(* ===== verification/Prelude.thy ===== *)
theory Prelude
  imports Main "HOL-Library.Word"
begin

text \<open>
  Shared vocabulary of the development: the machine integers of the source, the byte layout of
  multi-byte integers on the (little-endian, LP64) target, \<^verbatim>\<open>memcmp\<close>, \<^verbatim>\<open>memcpy\<close>, the byte-order
  functions of the C library, and the codec interface that every fixed-size wire format of the program
  satisfies.
\<close>

unbundle bit_operations_syntax

named_theorems wf_intros \<open>introduction rules for well-formedness of packets and buffers\<close>
named_theorems view_simps \<open>what an operation does to the bytes a packet shows\<close>
named_theorems codec_simps \<open>encoders and decoders of the wire formats\<close>

section \<open>Machine integers\<close>

type_synonym byte = "8 word"
type_synonym u16 = "16 word"
type_synonym u32 = "32 word"
type_synonym size_t = "64 word"

lemma unat_diff_le [simp]: "b \<le> a \<Longrightarrow> unat (a - b) = unat a - unat b" for a b :: "'a::len word"
  by (rule unat_sub)

lemma unat_add_no_wrap:
  "unat a + unat b < 2 ^ LENGTH('a) \<Longrightarrow> unat (a + b) = unat a + unat b" for a b :: "'a::len word"
  by (simp add: unat_word_ariths)

lemma unat_Suc_no_wrap:
  "Suc (unat a) < 2 ^ LENGTH('a) \<Longrightarrow> unat (a + 1) = Suc (unat a)" for a :: "'a::len word"
  by (simp add: unat_word_ariths)

lemma unat_of_nat_size [simp]: "n < 2 ^ 64 \<Longrightarrow> unat (of_nat n :: size_t) = n"
  by (simp add: unat_of_nat take_bit_nat_eq_self)

lemma unat_ucast_small: "unat w < 2 ^ 32 \<Longrightarrow> unat (ucast w :: u32) = unat w" for w :: size_t
  by (simp add: unsigned_ucast_eq take_bit_nat_eq_self)

lemma sint_ucast_small:
  fixes w :: size_t
  assumes "unat w < 2 ^ 31" shows "sint (ucast w :: u32) = int (unat w)"
proof -
  have u: "uint w = int (unat w)" by simp
  have "int (unat w) < int (2 ^ 31)" using assms by (rule of_nat_less_iff [THEN iffD2])
  with u have "uint w < 2 ^ 31" by simp
  moreover have "- (2 ^ 31) \<le> uint w"
    by (rule order_trans [of _ 0]) simp_all
  ultimately have "signed_take_bit 31 (take_bit 32 (uint w)) = uint w"
    by (subst take_bit_int_eq_self) (simp_all add: signed_take_bit_int_eq_self [of 31])
  with u show ?thesis by (simp add: sint_uint unsigned_ucast_eq)
qed

section \<open>Lists\<close>

lemma take_append_exact [simp]: "length xs = n \<Longrightarrow> take n (xs @ ys) = xs"
  by simp

lemma drop_append_exact [simp]: "length xs = n \<Longrightarrow> drop n (xs @ ys) = ys"
  by simp

lemma length_eq_4_iff: "length xs = 4 \<longleftrightarrow> (\<exists>a b c d. xs = [a, b, c, d])"
  by (auto simp: numeral_eq_Suc length_Suc_conv)

lemma take_Suc_append_nth: "i < length xs \<Longrightarrow> take (Suc i) xs = take i xs @ [xs ! i]"
  by (rule take_Suc_conv_app_nth)

section \<open>Byte layout of integers\<close>

text \<open>
  Object representation of \<^verbatim>\<open>uint16_t\<close> and \<^verbatim>\<open>uint32_t\<close> on a little-endian machine, least significant
  byte first, and the value that an object with these bytes has.
\<close>

definition bytes_of_u16 :: "u16 \<Rightarrow> byte list" where
  "bytes_of_u16 w = [ucast w, ucast (drop_bit 8 w)]"

definition u16_of_bytes :: "byte list \<Rightarrow> u16" where
  "u16_of_bytes bs = ucast (bs ! 0) OR push_bit 8 (ucast (bs ! 1))"

definition bytes_of_u32 :: "u32 \<Rightarrow> byte list" where
  "bytes_of_u32 w = [ucast w, ucast (drop_bit 8 w), ucast (drop_bit 16 w), ucast (drop_bit 24 w)]"

definition u32_of_bytes :: "byte list \<Rightarrow> u32" where
  "u32_of_bytes bs = ucast (bs ! 0) OR push_bit 8 (ucast (bs ! 1))
     OR push_bit 16 (ucast (bs ! 2)) OR push_bit 24 (ucast (bs ! 3))"

lemma length_bytes_of_u16 [simp]: "length (bytes_of_u16 w) = 2"
  by (simp add: bytes_of_u16_def)

lemma length_bytes_of_u32 [simp]: "length (bytes_of_u32 w) = 4"
  by (simp add: bytes_of_u32_def)

lemma bit_byte_beyond [simp]: "8 \<le> k \<Longrightarrow> \<not> bit (a :: byte) (k + n)"
  by (auto dest: bit_imp_le_length)

lemma u16_of_bytes_of_u16 [codec_simps]: "u16_of_bytes (bytes_of_u16 w @ r) = w"
proof (rule bit_word_eqI)
  fix n :: nat
  assume "n < LENGTH(16)"
  then consider "n < 8" | "8 \<le> n" "n < 16"
    by fastforce
  then show "bit (u16_of_bytes (bytes_of_u16 w @ r)) n = bit w n"
    by cases (auto simp: u16_of_bytes_def bytes_of_u16_def bit_simps less_diff_conv2)
qed

lemma u32_of_bytes_of_u32 [codec_simps]: "u32_of_bytes (bytes_of_u32 w @ r) = w"
proof (rule bit_word_eqI)
  fix n :: nat
  assume "n < LENGTH(32)"
  then consider "n < 8" | "8 \<le> n" "n < 16" | "16 \<le> n" "n < 24" | "24 \<le> n" "n < 32"
    by fastforce
  then show "bit (u32_of_bytes (bytes_of_u32 w @ r)) n = bit w n"
    by cases (auto simp: u32_of_bytes_def bytes_of_u32_def bit_simps less_diff_conv2)
qed

lemma bytes_of_u16_of_bytes [codec_simps]: "bytes_of_u16 (u16_of_bytes [a, b]) = [a, b]"
  by (auto simp: u16_of_bytes_def bytes_of_u16_def intro!: bit_word_eqI simp: bit_simps)

lemma bytes_of_u32_of_bytes [codec_simps]: "bytes_of_u32 (u32_of_bytes [a, b, c, d]) = [a, b, c, d]"
  by (auto simp: u32_of_bytes_def bytes_of_u32_def intro!: bit_word_eqI simp: bit_simps)

text \<open>
  The byte-order functions of the C library on a little-endian host: the object representation is
  reversed. \<^verbatim>\<open>ntohl\<close> and \<^verbatim>\<open>ntohs\<close> are the same functions.
\<close>

definition htons :: "u16 \<Rightarrow> u16" where
  "htons w = u16_of_bytes (rev (bytes_of_u16 w))"

definition htonl :: "u32 \<Rightarrow> u32" where
  "htonl w = u32_of_bytes (rev (bytes_of_u32 w))"

abbreviation ntohl :: "u32 \<Rightarrow> u32" where "ntohl \<equiv> htonl"

lemma htonl_htonl [simp]: "htonl (htonl w) = w"
proof -
  obtain a b c d where bs: "bytes_of_u32 w = [a, b, c, d]"
    using length_eq_4_iff [of "bytes_of_u32 w"] by auto
  then show ?thesis
    using u32_of_bytes_of_u32 [of w "[]"] by (simp add: htonl_def bytes_of_u32_of_bytes)
qed

lemma htons_htons [simp]: "htons (htons w) = w"
proof -
  obtain a b where bs: "bytes_of_u16 w = [a, b]"
    by (simp add: bytes_of_u16_def)
  then show ?thesis
    using u16_of_bytes_of_u16 [of w "[]"] by (simp add: htons_def bytes_of_u16_of_bytes)
qed

lemma htonl_inject [simp]: "htonl v = htonl w \<longleftrightarrow> v = w"
  by (metis htonl_htonl)

lemma htons_inject [simp]: "htons v = htons w \<longleftrightarrow> v = w"
  by (metis htons_htons)

section \<open>Memory blocks\<close>

text \<open>
  \<^verbatim>\<open>memcmp\<close> on the first \<open>n\<close> bytes of two blocks: the sign of the first difference, bytes compared
  as unsigned. \<^verbatim>\<open>memcpy\<close> of \<open>src\<close> to offset \<open>off\<close> of a block; the caller checks the bounds.
\<close>

fun memcmp :: "byte list \<Rightarrow> byte list \<Rightarrow> nat \<Rightarrow> int" where
  "memcmp xs ys 0 = 0"
| "memcmp (x # xs) (y # ys) (Suc n) = (if x < y then -1 else if y < x then 1 else memcmp xs ys n)"
| "memcmp xs ys (Suc n) = 0"

lemma memcmp_eq_0_iff:
  "n \<le> length xs \<Longrightarrow> n \<le> length ys \<Longrightarrow> memcmp xs ys n = 0 \<longleftrightarrow> take n xs = take n ys"
  by (induction xs ys n rule: memcmp.induct) auto

definition memcpy :: "byte list \<Rightarrow> nat \<Rightarrow> byte list \<Rightarrow> byte list" where
  "memcpy dst off src = take off dst @ src @ drop (off + length src) dst"

lemma length_memcpy [simp]:
  "off + length src \<le> length dst \<Longrightarrow> length (memcpy dst off src) = length dst"
  by (simp add: memcpy_def)

lemma take_memcpy [simp]:
  "off + length src \<le> length dst \<Longrightarrow>
   take (off + length src) (memcpy dst off src) = take off dst @ src"
  by (simp add: memcpy_def)

lemma memcpy_Nil [simp]: "memcpy dst off [] = dst"
  by (simp add: memcpy_def)

lemma memcpy_memcpy:
  "off + length xs \<le> length dst \<Longrightarrow>
   memcpy (memcpy dst off xs) (off + length xs) ys = memcpy dst off (xs @ ys)"
  by (simp add: memcpy_def add.commute add.left_commute)

lemma memcpy_full: "length src = length dst \<Longrightarrow> memcpy dst 0 src = src"
  by (simp add: memcpy_def)

section \<open>The codec interface\<close>

text \<open>
  A fixed-size wire format: an encoder to \<open>n\<close> bytes and a decoder that reads the first \<open>n\<close> bytes
  of a block and ignores the rest. Packet headers and the scalar types of the archive satisfy it.
\<close>

locale codec =
  fixes enc :: "'a \<Rightarrow> byte list" and dec :: "byte list \<Rightarrow> 'a" and n :: nat
  assumes length_enc: "length (enc x) = n"
    and dec_enc: "dec (enc x @ rest) = x"
begin

lemma framed: "dec (enc x @ rest) = x \<and> drop n (enc x @ rest) = rest"
  by (simp add: dec_enc length_enc)

lemma enc_inject: "enc x = enc y \<longleftrightarrow> x = y"
  by (metis dec_enc)

lemma enc_prefix_free: "enc x @ r = enc y @ s \<Longrightarrow> x = y \<and> r = s"
  by (metis framed)

end

interpretation u16_codec: codec bytes_of_u16 u16_of_bytes 2
  by unfold_locales (simp_all add: codec_simps)

interpretation u32_codec: codec bytes_of_u32 u32_of_bytes 4
  by unfold_locales (simp_all add: codec_simps)

end
