(* ===== verification/Exceptions.thy ===== *)
theory Exceptions
  imports Prelude
begin

text \<open>
  The exceptions of the program (\<^verbatim>\<open>include/exception.hpp\<close>, \<^verbatim>\<open>common/Exception.cpp\<close>,
  \<^verbatim>\<open>net/SocketException.cpp\<close>, \<^verbatim>\<open>net/CryptoException.cpp\<close>), the standard exceptions it throws, and
  the outcome of a C++ expression: a value, an exception, or undefined behaviour.
\<close>

section \<open>Exception classes\<close>

text \<open>
  One constructor per class. \<^verbatim>\<open>SocketException\<close> carries the \<^verbatim>\<open>errno\<close> value, \<^verbatim>\<open>CryptoException\<close> the
  GnuTLS error code and the TLS alert. The last five are the classes of the standard library that
  the sources throw.
\<close>

datatype exn =
    Exception string
  | FileNotFound string
  | InvalidOperation string
  | SocketException int string
  | CryptoException int int string
  | InvalidArgument string
  | RuntimeError string
  | SystemError int
  | OutOfRange string

text \<open>\<^verbatim>\<open>what()\<close>; a \<^verbatim>\<open>std::system_error\<close> composes its own text, which nothing here reads.\<close>

fun what :: "exn \<Rightarrow> string option" where
  "what (Exception w) = Some w"
| "what (FileNotFound w) = Some w"
| "what (InvalidOperation w) = Some w"
| "what (SocketException n w) = Some w"
| "what (CryptoException c a w) = Some w"
| "what (InvalidArgument w) = Some w"
| "what (RuntimeError w) = Some w"
| "what (OutOfRange w) = Some w"
| "what (SystemError n) = None"

fun number :: "exn \<Rightarrow> int option" where
  "number (SocketException n w) = Some n"
| "number _ = None"

fun code :: "exn \<Rightarrow> int option" where
  "code (CryptoException c a w) = Some c"
| "code _ = None"

fun alert :: "exn \<Rightarrow> int option" where
  "alert (CryptoException c a w) = Some a"
| "alert _ = None"

section \<open>Outcomes\<close>

text \<open>
  How a call ends: with a value, with an exception, or in undefined behaviour, of which the reason is kept.
  \<open>NoReturn\<close> stands for a call that never comes back; like undefined behaviour it ends the run of its caller.
\<close>

datatype ub = OutOfBounds | NullDeref | DoubleFree | InvalidFree | UseAfterFree | Uninitialised | BadCompare | NoReturn

datatype 'a outcome = Ret 'a | Throw exn | UB ub

primrec is_ret :: "'a outcome \<Rightarrow> bool" where
  "is_ret (Ret x) = True"
| "is_ret (Throw e) = False"
| "is_ret (UB u) = False"

primrec map_outcome_val :: "('a \<Rightarrow> 'b) \<Rightarrow> 'a outcome \<Rightarrow> 'b outcome" where
  "map_outcome_val f (Ret x) = Ret (f x)"
| "map_outcome_val f (Throw e) = Throw e"
| "map_outcome_val f (UB u) = UB u"

text \<open>Sequencing: an exception or undefined behaviour ends the computation.\<close>

primrec and_then :: "'a outcome \<Rightarrow> ('a \<Rightarrow> 'b outcome) \<Rightarrow> 'b outcome" where
  "and_then (Ret x) f = f x"
| "and_then (Throw e) f = Throw e"
| "and_then (UB u) f = UB u"

lemma and_then_Ret_iff: "and_then m f = Ret y \<longleftrightarrow> (\<exists>x. m = Ret x \<and> f x = Ret y)"
  by (cases m) auto

lemma and_then_assoc: "and_then (and_then m f) g = and_then m (\<lambda>x. and_then (f x) g)"
  by (cases m) auto

lemma is_ret_iff: "is_ret m \<longleftrightarrow> (\<exists>x. m = Ret x)"
  by (cases m) auto

end
