(* ===== verification/Ipc.thy ===== *)
theory Ipc
  imports Exceptions
begin

text \<open>
  The archive format (\<^verbatim>\<open>include/ipc/Archive.hpp\<close>, \<^verbatim>\<open>include/ipc/Serializer.hpp\<close>,
  \<^verbatim>\<open>include/ipc/Deserializer.hpp\<close>): the two-pass serializer, the deserializer, and the round trip
  between them for every value whose \<^verbatim>\<open>deserialize\<close> mirrors its \<^verbatim>\<open>serialize\<close>.
\<close>

section \<open>Archive\<close>

record archive =
  ar_data :: "byte list"
  ar_length :: size_t
  ar_fds :: "int list"

section \<open>Serializer\<close>

text \<open>
  A serializable value: a POD object by its object representation, or an object of a class with a
  \<^verbatim>\<open>serialize(const T&, Serializer&)\<close> function, by the calls this function makes on the serializer.
\<close>

datatype val = Pod "byte list" | Obj "act list"
and act = Write val | WritePodArray "byte list list" | WriteArray "val list" | WriteFd int

record serializer =
  sz_buffer :: "byte list option"
  sz_offset :: size_t
  sz_fds :: "int list"

definition push_raw :: "byte list \<Rightarrow> serializer \<Rightarrow> serializer outcome" where
  "push_raw data s =
     (case sz_buffer s of
        None \<Rightarrow> Ret (s\<lparr>sz_offset := sz_offset s + of_nat (length data)\<rparr>)
      | Some b \<Rightarrow>
          if unat (sz_offset s) + length data \<le> length b
          then Ret (s\<lparr>sz_buffer := Some (memcpy b (unat (sz_offset s)) data),
                      sz_offset := sz_offset s + of_nat (length data)\<rparr>)
          else UB OutOfBounds)"

definition writeFd :: "int \<Rightarrow> serializer \<Rightarrow> serializer" where
  "writeFd fd s = s\<lparr>sz_fds := sz_fds s @ [fd]\<rparr>"

text \<open>
  \<^verbatim>\<open>write\<close> and \<^verbatim>\<open>push\<close> for one item (POD: copy the object; otherwise: call its \<^verbatim>\<open>serialize\<close>) and for
  arrays (POD: copy \<^verbatim>\<open>count * sizeof(T)\<close> bytes; otherwise: a loop over the elements).
\<close>

fun push :: "val \<Rightarrow> serializer \<Rightarrow> serializer outcome"
  and perform :: "act \<Rightarrow> serializer \<Rightarrow> serializer outcome"
  and perform_all :: "act list \<Rightarrow> serializer \<Rightarrow> serializer outcome"
  and push_array :: "val list \<Rightarrow> serializer \<Rightarrow> serializer outcome" where
  "push (Pod bs) s = push_raw bs s"
| "push (Obj as) s = perform_all as s"
| "perform (Write v) s = push v s"
| "perform (WritePodArray xs) s = push_raw (concat xs) s"
| "perform (WriteArray vs) s = push_array vs s"
| "perform (WriteFd fd) s = Ret (writeFd fd s)"
| "perform_all [] s = Ret s"
| "perform_all (a # as) s = and_then (perform a s) (\<lambda>s'. perform_all as s')"
| "push_array [] s = Ret s"
| "push_array (v # vs) s = and_then (push v s) (\<lambda>s'. push_array vs s')"

text \<open>
  \<^verbatim>\<open>run\<close>: the first pass has no buffer and only measures, the second one writes into a buffer of the
  measured size (\<open>block n\<close> is what \<^verbatim>\<open>new uint8_t[n]\<close> returns).
\<close>

definition Serializer_run :: "(nat \<Rightarrow> byte list) \<Rightarrow> val \<Rightarrow> serializer \<Rightarrow> archive outcome" where
  "Serializer_run block item s =
     and_then (push item (s\<lparr>sz_buffer := None, sz_offset := 0\<rparr>))
       (\<lambda>s1. and_then (push item (s1\<lparr>sz_buffer := Some (block (unat (sz_offset s1))), sz_offset := 0\<rparr>))
         (\<lambda>s2. case sz_buffer s2 of
             None \<Rightarrow> UB NullDeref
           | Some b \<Rightarrow> Ret \<lparr>ar_data = b, ar_length = sz_offset s2, ar_fds = sz_fds s2\<rparr>))"

definition Serializer_new :: serializer where
  "Serializer_new = \<lparr>sz_buffer = None, sz_offset = 0, sz_fds = []\<rparr>"

definition serialize_archive :: "(nat \<Rightarrow> byte list) \<Rightarrow> val \<Rightarrow> archive outcome" where
  "serialize_archive block item = Serializer_run block item Serializer_new"

section \<open>Deserializer\<close>

record deserializer =
  dz_archive :: archive
  dz_byteOffset :: size_t
  dz_fdOffset :: size_t

text \<open>
  The constructor initialises the archive reference only; both offsets start with whatever the
  object's memory holds, the arguments \<open>junk1\<close> and \<open>junk2\<close>.
\<close>

definition Deserializer_new :: "size_t \<Rightarrow> size_t \<Rightarrow> archive \<Rightarrow> deserializer" where
  "Deserializer_new junk1 junk2 a = \<lparr>dz_archive = a, dz_byteOffset = junk1, dz_fdOffset = junk2\<rparr>"

definition pop_raw :: "nat \<Rightarrow> deserializer \<Rightarrow> (byte list \<times> deserializer) outcome" where
  "pop_raw len d =
     (if unat (dz_byteOffset d) + len \<le> length (ar_data (dz_archive d))
      then Ret (take len (drop (unat (dz_byteOffset d)) (ar_data (dz_archive d))),
                d\<lparr>dz_byteOffset := dz_byteOffset d + of_nat len\<rparr>)
      else UB OutOfBounds)"

definition readFd :: "deserializer \<Rightarrow> int outcome \<times> deserializer" where
  "readFd d =
     (let i = unat (dz_fdOffset d); d' = d\<lparr>dz_fdOffset := dz_fdOffset d + 1\<rparr>
      in (if i < length (ar_fds (dz_archive d)) then Ret (ar_fds (dz_archive d) ! i)
          else Throw (OutOfRange ''vector::_M_range_check''), d'))"

text \<open>
  What a reader expects, by the same structure as the values: a POD object of a size, an object whose
  \<^verbatim>\<open>deserialize(T*, Deserializer&)\<close> makes the listed calls, or an object whose \<^verbatim>\<open>deserialize\<close> reads a tag
  of some bytes and goes on by a \<^verbatim>\<open>switch\<close> over it, with no case for other tags.
\<close>

datatype shape = PodOf nat | ObjOf "ract list" | TaggedOf nat cases
and ract = Read shape | ReadPodArray nat nat | ReadFd
and cases = NoCase | Case "byte list" "ract list" cases

primrec split_elems :: "nat \<Rightarrow> nat \<Rightarrow> byte list \<Rightarrow> byte list list" where
  "split_elems 0 sz bs = []"
| "split_elems (Suc n) sz bs = take sz bs # split_elems n sz (drop sz bs)"

fun pop :: "shape \<Rightarrow> deserializer \<Rightarrow> (val \<times> deserializer) outcome"
  and read_act :: "ract \<Rightarrow> deserializer \<Rightarrow> (act \<times> deserializer) outcome"
  and read_all :: "ract list \<Rightarrow> deserializer \<Rightarrow> (act list \<times> deserializer) outcome"
  and read_case :: "cases \<Rightarrow> byte list \<Rightarrow> deserializer \<Rightarrow> (act list \<times> deserializer) outcome" where
  "pop (PodOf n) d = and_then (pop_raw n d) (\<lambda>(bs, d'). Ret (Pod bs, d'))"
| "pop (ObjOf rs) d = and_then (read_all rs d) (\<lambda>(as, d'). Ret (Obj as, d'))"
| "pop (TaggedOf n cs) d =
     and_then (pop_raw n d) (\<lambda>(t, d'). and_then (read_case cs t d') (\<lambda>(as, d''). Ret (Obj (Write (Pod t) # as), d'')))"
| "read_act (Read sh) d = and_then (pop sh d) (\<lambda>(v, d'). Ret (Write v, d'))"
| "read_act (ReadPodArray count sz) d =
     and_then (pop_raw (count * sz) d) (\<lambda>(bs, d'). Ret (WritePodArray (split_elems count sz bs), d'))"
| "read_act ReadFd d =
     (let (r, d') = readFd d in and_then r (\<lambda>fd. Ret (WriteFd fd, d')))"
| "read_all [] d = Ret ([], d)"
| "read_all (r # rs) d =
     and_then (read_act r d) (\<lambda>(a, d'). and_then (read_all rs d') (\<lambda>(as, d''). Ret (a # as, d'')))"
| "read_case NoCase t d = UB Uninitialised"
| "read_case (Case c rs cs) t d = (if t = c then read_all rs d else read_case cs t d)"

definition deserialize_archive :: "size_t \<Rightarrow> size_t \<Rightarrow> shape \<Rightarrow> archive \<Rightarrow> val outcome" where
  "deserialize_archive junk1 junk2 sh a =
     and_then (pop sh (Deserializer_new junk1 junk2 a)) (\<lambda>(v, _). Ret v)"

section \<open>What is written\<close>

text \<open>The bytes and the file descriptors of a value, in the order they are written.\<close>

fun flat :: "val \<Rightarrow> byte list"
  and flat_act :: "act \<Rightarrow> byte list"
  and flat_acts :: "act list \<Rightarrow> byte list"
  and flat_vals :: "val list \<Rightarrow> byte list" where
  "flat (Pod bs) = bs"
| "flat (Obj as) = flat_acts as"
| "flat_act (Write v) = flat v"
| "flat_act (WritePodArray xs) = concat xs"
| "flat_act (WriteArray vs) = flat_vals vs"
| "flat_act (WriteFd fd) = []"
| "flat_acts [] = []"
| "flat_acts (a # as) = flat_act a @ flat_acts as"
| "flat_vals [] = []"
| "flat_vals (v # vs) = flat v @ flat_vals vs"

fun fds :: "val \<Rightarrow> int list"
  and fds_act :: "act \<Rightarrow> int list"
  and fds_acts :: "act list \<Rightarrow> int list"
  and fds_vals :: "val list \<Rightarrow> int list" where
  "fds (Pod bs) = []"
| "fds (Obj as) = fds_acts as"
| "fds_act (Write v) = fds v"
| "fds_act (WritePodArray xs) = []"
| "fds_act (WriteArray vs) = fds_vals vs"
| "fds_act (WriteFd fd) = [fd]"
| "fds_acts [] = []"
| "fds_acts (a # as) = fds_act a @ fds_acts as"
| "fds_vals [] = []"
| "fds_vals (v # vs) = fds v @ fds_vals vs"

section \<open>Both passes of the serializer\<close>

text \<open>
  The effect of writing a sequence of bytes and descriptors in one go, and when it is in bounds.
\<close>

definition emit :: "byte list \<Rightarrow> int list \<Rightarrow> serializer \<Rightarrow> serializer" where
  "emit bs fs s =
     s\<lparr>sz_buffer := map_option (\<lambda>b. memcpy b (unat (sz_offset s)) bs) (sz_buffer s),
       sz_offset := sz_offset s + of_nat (length bs), sz_fds := sz_fds s @ fs\<rparr>"

definition fits :: "nat \<Rightarrow> serializer \<Rightarrow> bool" where
  "fits n s \<longleftrightarrow> (case sz_buffer s of None \<Rightarrow> True
     | Some b \<Rightarrow> unat (sz_offset s) + n \<le> length b \<and> length b < 2 ^ 64)"

lemma push_raw_emit: "fits (length bs) s \<Longrightarrow> push_raw bs s = Ret (emit bs [] s)"
  by (auto simp: push_raw_def fits_def emit_def split: option.splits)

lemma emit_Nil [simp]: "emit [] [] s = s"
  by (cases "sz_buffer s") (simp_all add: emit_def)

lemma offset_no_wrap: "fits n s \<Longrightarrow> sz_buffer s = Some b \<Longrightarrow> m \<le> n \<Longrightarrow>
  unat (sz_offset s + of_nat m) = unat (sz_offset s) + m"
  by (subst unat_add_no_wrap) (simp_all add: fits_def)

lemma fits_emit:
  assumes "fits (length xs + n) s"
  shows "fits n (emit xs f s)"
  using assms offset_no_wrap [OF assms, of _ "length xs"]
  by (cases "sz_buffer s") (simp_all add: fits_def emit_def)

lemma emit_emit:
  assumes "fits (length xs + length ys) s"
  shows "emit ys g (emit xs f s) = emit (xs @ ys) (f @ g) s"
proof (cases "sz_buffer s")
  case None
  then show ?thesis by (simp add: emit_def add.assoc)
next
  case (Some b)
  then show ?thesis
    using assms offset_no_wrap [OF assms Some, of "length xs"]
    by (simp add: emit_def fits_def memcpy_memcpy add.assoc)
qed

lemma fits_mono: "fits n s \<Longrightarrow> m \<le> n \<Longrightarrow> fits m s"
  by (auto simp: fits_def split: option.splits)

lemma push_emit:
  "fits (length (flat v)) s \<Longrightarrow> push v s = Ret (emit (flat v) (fds v) s)"
  "fits (length (flat_act a)) s \<Longrightarrow> perform a s = Ret (emit (flat_act a) (fds_act a) s)"
  "fits (length (flat_acts as)) s \<Longrightarrow> perform_all as s = Ret (emit (flat_acts as) (fds_acts as) s)"
  "fits (length (flat_vals vs)) s \<Longrightarrow> push_array vs s = Ret (emit (flat_vals vs) (fds_vals vs) s)"
proof (induction v s and a s and as s and vs s rule: push_perform_perform_all_push_array.induct)
  case (6 fd s)
  show ?case by (cases "sz_buffer s") (simp_all add: writeFd_def emit_def)
next
  case (8 a as s)
  then have "fits (length (flat_act a)) s" "fits (length (flat_acts as)) (emit (flat_act a) (fds_act a) s)"
    by (auto intro: fits_mono fits_emit)
  with 8 show ?case by (simp add: emit_emit)
next
  case (10 v vs s)
  then have "fits (length (flat v)) s" "fits (length (flat_vals vs)) (emit (flat v) (fds v) s)"
    by (auto intro: fits_mono fits_emit)
  with 10 show ?case by (simp add: emit_emit)
qed (simp_all add: push_raw_emit)

lemma serialize_exact_lemma:
  assumes "length (flat v) < 2 ^ 64" and "\<forall>n. length (block n) = n"
  shows "serialize_archive block v =
    Ret \<lparr>ar_data = flat v, ar_length = of_nat (length (flat v)), ar_fds = fds v @ fds v\<rparr>"
proof -
  let ?s0 = "Serializer_new\<lparr>sz_buffer := None, sz_offset := 0\<rparr>"
  let ?s1 = "emit (flat v) (fds v) ?s0"
  have "fits (length (flat v)) ?s0"
    by (simp add: fits_def)
  then have 1: "push v ?s0 = Ret ?s1"
    by (rule push_emit)
  have off: "unat (sz_offset ?s1) = length (flat v)"
    using assms(1) by (simp add: emit_def)
  let ?s2 = "?s1\<lparr>sz_buffer := Some (block (length (flat v))), sz_offset := 0\<rparr>"
  have "fits (length (flat v)) ?s2"
    using assms by (simp add: fits_def)
  then have 2: "push v ?s2 = Ret (emit (flat v) (fds v) ?s2)"
    by (rule push_emit)
  have "memcpy (block (length (flat v))) 0 (flat v) = flat v"
    using assms(2) by (simp add: memcpy_full)
  with 1 2 off show ?thesis
    by (simp add: serialize_archive_def Serializer_run_def) (simp add: emit_def Serializer_new_def)
qed

text \<open>
  C15. Serialization is memory safe and exact: the measuring pass computes the size of the buffer
  so that the writing pass never leaves it, for every value of less than $2^{64}$ bytes, and the
  archive holds exactly the value's bytes. Both passes run \<^verbatim>\<open>serialize\<close>, so every file descriptor is
  in the archive twice: the list is the value's descriptors repeated.
\<close>

theorem serialize_exact:
  assumes "length (flat v) < 2 ^ 64" and "\<forall>n. length (block n) = n"
  shows "serialize_archive block v =
    Ret \<lparr>ar_data = flat v, ar_length = of_nat (length (flat v)), ar_fds = fds v @ fds v\<rparr>"
  using assms by (rule serialize_exact_lemma)

theorem serialize_exact_witness:
  "serialize_archive (\<lambda>n. replicate n 0) (Obj [Write (Pod [1, 2]), WriteFd 7, WriteArray [Pod [3], Pod [4]]])
   = Ret \<lparr>ar_data = [1, 2, 3, 4], ar_length = 4, ar_fds = [7, 7]\<rparr>"
  using serialize_exact [of "Obj [Write (Pod [1, 2]), WriteFd 7, WriteArray [Pod [3], Pod [4]]]"
      "\<lambda>n. replicate n 0"] by simp

section \<open>Reading back\<close>

text \<open>
  The shape a mirroring reader expects. Arrays of class objects are left out: \<^verbatim>\<open>Deserializer\<close> has no
  \<^verbatim>\<open>pop\<close> for the call its array loop makes, so no program that reads one compiles. Elements of a POD
  array all have the size of the element type.
\<close>

definition elem_size :: "byte list list \<Rightarrow> nat" where
  "elem_size xs = (case xs of [] \<Rightarrow> 0 | x # _ \<Rightarrow> length x)"

fun shape_of :: "val \<Rightarrow> shape"
  and shape_act :: "act \<Rightarrow> ract"
  and shape_acts :: "act list \<Rightarrow> ract list" where
  "shape_of (Pod bs) = PodOf (length bs)"
| "shape_of (Obj as) = ObjOf (shape_acts as)"
| "shape_act (Write v) = Read (shape_of v)"
| "shape_act (WritePodArray xs) = ReadPodArray (length xs) (elem_size xs)"
| "shape_act (WriteArray vs) = Read (ObjOf [])"
| "shape_act (WriteFd fd) = ReadFd"
| "shape_acts [] = []"
| "shape_acts (a # as) = shape_act a # shape_acts as"

fun readable :: "val \<Rightarrow> bool"
  and readable_act :: "act \<Rightarrow> bool"
  and readable_acts :: "act list \<Rightarrow> bool" where
  "readable (Pod bs) = True"
| "readable (Obj as) = readable_acts as"
| "readable_act (Write v) = readable v"
| "readable_act (WritePodArray xs) = list_all (\<lambda>x. length x = elem_size xs) xs"
| "readable_act (WriteArray vs) = False"
| "readable_act (WriteFd fd) = True"
| "readable_acts [] = True"
| "readable_acts (a # as) = (readable_act a \<and> readable_acts as)"

text \<open>The reader stands before bytes \<open>bs\<close> and descriptors \<open>fs\<close> of its archive.\<close>

definition before :: "byte list \<Rightarrow> int list \<Rightarrow> deserializer \<Rightarrow> bool" where
  "before bs fs d \<longleftrightarrow>
     length (ar_data (dz_archive d)) < 2 ^ 64 \<and> length (ar_fds (dz_archive d)) < 2 ^ 64 \<and>
     unat (dz_byteOffset d) \<le> length (ar_data (dz_archive d)) \<and>
     unat (dz_fdOffset d) \<le> length (ar_fds (dz_archive d)) \<and>
     (\<exists>r. drop (unat (dz_byteOffset d)) (ar_data (dz_archive d)) = bs @ r) \<and>
     (\<exists>r. drop (unat (dz_fdOffset d)) (ar_fds (dz_archive d)) = fs @ r)"

definition advance :: "nat \<Rightarrow> nat \<Rightarrow> deserializer \<Rightarrow> deserializer" where
  "advance m n d =
     d\<lparr>dz_byteOffset := dz_byteOffset d + of_nat m, dz_fdOffset := dz_fdOffset d + of_nat n\<rparr>"

lemma advance_0 [simp]: "advance 0 0 d = d"
  by (simp add: advance_def)

lemma advance_advance: "advance m n (advance k l d) = advance (k + m) (l + n) d"
  by (simp add: advance_def add.assoc)

lemma before_lengths:
  assumes "before bs fs d"
  shows "unat (dz_byteOffset d) + length bs \<le> length (ar_data (dz_archive d))"
    and "unat (dz_fdOffset d) + length fs \<le> length (ar_fds (dz_archive d))"
proof -
  obtain r q where r: "drop (unat (dz_byteOffset d)) (ar_data (dz_archive d)) = bs @ r"
    and q: "drop (unat (dz_fdOffset d)) (ar_fds (dz_archive d)) = fs @ q"
    using assms by (auto simp: before_def)
  from arg_cong [OF r, of length] arg_cong [OF q, of length] assms
  show "unat (dz_byteOffset d) + length bs \<le> length (ar_data (dz_archive d))"
    and "unat (dz_fdOffset d) + length fs \<le> length (ar_fds (dz_archive d))"
    by (auto simp: before_def)
qed

lemma before_advance:
  assumes "before (bs @ cs) (fs @ gs) d"
  shows "before cs gs (advance (length bs) (length fs) d)"
proof -
  note l = before_lengths [OF assms]
  have u: "unat (dz_byteOffset d + of_nat (length bs)) = unat (dz_byteOffset d) + length bs"
    "unat (dz_fdOffset d + of_nat (length fs)) = unat (dz_fdOffset d) + length fs"
    using l assms by (simp_all add: before_def unat_add_no_wrap)
  obtain r q where r: "drop (unat (dz_byteOffset d)) (ar_data (dz_archive d)) = bs @ cs @ r"
    and q: "drop (unat (dz_fdOffset d)) (ar_fds (dz_archive d)) = fs @ gs @ q"
    using assms by (auto simp: before_def)
  from arg_cong [OF r, of "drop (length bs)"] arg_cong [OF q, of "drop (length fs)"] l u assms
  show ?thesis
    by (auto simp: before_def advance_def add.commute)
qed

lemma before_prefix: "before (bs @ cs) (fs @ gs) d \<Longrightarrow> before bs fs d"
  by (auto simp: before_def)

lemma pop_raw_before: "before bs fs d \<Longrightarrow> pop_raw (length bs) d = Ret (bs, advance (length bs) 0 d)"
  using before_lengths [of bs fs d] by (auto simp: pop_raw_def before_def advance_def)

lemma readFd_before: "before bs [fd] d \<Longrightarrow> readFd d = (Ret fd, advance 0 1 d)"
proof -
  assume b: "before bs [fd] d"
  then obtain q where "drop (unat (dz_fdOffset d)) (ar_fds (dz_archive d)) = fd # q"
    by (auto simp: before_def)
  then have "ar_fds (dz_archive d) ! unat (dz_fdOffset d) = fd"
    by (metis append_Nil append_eq_conv_conj drop_eq_Nil2 hd_drop_conv_nth list.distinct(1) list.sel(1) not_less)
  with before_lengths(2) [OF b] show ?thesis
    by (simp add: readFd_def advance_def)
qed

lemma concat_split:
  "\<forall>x\<in>set xs. length x = n \<Longrightarrow> split_elems (length xs) n (concat xs @ r) = xs"
  by (induction xs) simp_all

lemma length_concat_uniform: "\<forall>x\<in>set xs. length x = n \<Longrightarrow> length (concat xs) = length xs * n"
  by (induction xs) simp_all

lemma read_pod_array:
  assumes "before (concat xs) fs d" and "list_all (\<lambda>x. length x = elem_size xs) xs"
  shows "read_act (shape_act (WritePodArray xs)) d = Ret (WritePodArray xs, advance (length (concat xs)) 0 d)"
proof -
  have n: "\<forall>x\<in>set xs. length x = elem_size xs"
    using assms(2) by (simp add: list_all_iff)
  have "pop_raw (length xs * elem_size xs) d = Ret (concat xs, advance (length (concat xs)) 0 d)"
    using pop_raw_before [OF assms(1)] by (simp only: length_concat_uniform [OF n])
  moreover have "split_elems (length xs) (elem_size xs) (concat xs) = xs"
    using concat_split [OF n, of "[]"] by simp
  ultimately show ?thesis by simp
qed

lemma pop_before:
  "readable v \<Longrightarrow> before (flat v) (fds v) d \<Longrightarrow>
     pop (shape_of v) d = Ret (v, advance (length (flat v)) (length (fds v)) d)"
  "readable_act a \<Longrightarrow> before (flat_act a) (fds_act a) d \<Longrightarrow>
     read_act (shape_act a) d = Ret (a, advance (length (flat_act a)) (length (fds_act a)) d)"
  "readable_acts as \<Longrightarrow> before (flat_acts as) (fds_acts as) d \<Longrightarrow>
     read_all (shape_acts as) d = Ret (as, advance (length (flat_acts as)) (length (fds_acts as)) d)"
proof (induction v and a and as arbitrary: d and d and d rule: shape_of_shape_act_shape_acts.induct)
  case (4 xs)
  then show ?case using read_pod_array [of xs] by simp
next
  case (6 fd)
  then show ?case by (simp add: readFd_before)
next
  case (8 a as)
  then have "before (flat_act a) (fds_act a) d"
    "before (flat_acts as) (fds_acts as) (advance (length (flat_act a)) (length (fds_act a)) d)"
    by (auto intro: before_prefix before_advance)
  with 8 show ?case by (simp add: advance_advance)
qed (simp_all add: pop_raw_before)

text \<open>
  Archives round-trip: a value that the serializer writes and a mirroring \<^verbatim>\<open>deserialize\<close> reads
  from the start of the archive comes back unchanged, bytes and file descriptors, whatever the shape
  of the object tree.
\<close>

theorem archive_roundtrip:
  assumes "readable v" and "length (flat v) < 2 ^ 64" and "2 * length (fds v) < 2 ^ 64"
    and "\<forall>n. length (block n) = n"
  shows "and_then (serialize_archive block v) (deserialize_archive 0 0 (shape_of v)) = Ret v"
proof -
  let ?a = "\<lparr>ar_data = flat v, ar_length = of_nat (length (flat v)), ar_fds = fds v @ fds v\<rparr>"
  have "before (flat v) (fds v) (Deserializer_new 0 0 ?a)"
    using assms(2,3) by (simp add: before_def Deserializer_new_def)
  from pop_before(1) [OF assms(1) this] show ?thesis
    using serialize_exact_lemma [OF assms(2,4)] by (simp add: deserialize_archive_def)
qed

text \<open>A successful read stays inside the archive and moves the offset by the bytes it took.\<close>

definition took :: "nat \<Rightarrow> deserializer \<Rightarrow> deserializer \<Rightarrow> bool" where
  "took n d d' \<longleftrightarrow> dz_archive d' = dz_archive d \<and> unat (dz_byteOffset d') = unat (dz_byteOffset d) + n
     \<and> unat (dz_byteOffset d') \<le> length (ar_data (dz_archive d))"

lemma pop_raw_took:
  "length (ar_data (dz_archive d)) < 2 ^ 64 \<Longrightarrow> pop_raw n d = Ret (bs, d') \<Longrightarrow> took n d d'"
  by (auto simp: pop_raw_def took_def unat_add_no_wrap split: if_splits)

lemma readFd_took:
  "unat (dz_byteOffset d) \<le> length (ar_data (dz_archive d)) \<Longrightarrow> readFd d = (r, d') \<Longrightarrow> took 0 d d'"
  by (auto simp: readFd_def took_def Let_def)

lemma took_trans: "took m d e \<Longrightarrow> took n e f \<Longrightarrow> took (m + n) d f"
  by (auto simp: took_def)

lemma read_all_Cons_Ret:
  "read_all (r # rs) d = Ret (bs, d') \<longleftrightarrow>
     (\<exists>b e cs. read_act r d = Ret (b, e) \<and> read_all rs e = Ret (cs, d') \<and> bs = b # cs)"
  by (auto simp: and_then_Ret_iff)

lemma pop_took:
  "readable v \<Longrightarrow> length (ar_data (dz_archive d)) < 2 ^ 64 \<Longrightarrow> unat (dz_byteOffset d) \<le> length (ar_data (dz_archive d))
     \<Longrightarrow> pop (shape_of v) d = Ret (w, d') \<Longrightarrow> took (length (flat v)) d d'"
  "readable_act a \<Longrightarrow> length (ar_data (dz_archive d)) < 2 ^ 64 \<Longrightarrow> unat (dz_byteOffset d) \<le> length (ar_data (dz_archive d))
     \<Longrightarrow> read_act (shape_act a) d = Ret (b, d') \<Longrightarrow> took (length (flat_act a)) d d'"
  "readable_acts as \<Longrightarrow> length (ar_data (dz_archive d)) < 2 ^ 64 \<Longrightarrow> unat (dz_byteOffset d) \<le> length (ar_data (dz_archive d))
     \<Longrightarrow> read_all (shape_acts as) d = Ret (bs, d') \<Longrightarrow> took (length (flat_acts as)) d d'"
proof (induction v and a and as arbitrary: d w d' and d b d' and d bs d' rule: shape_of_shape_act_shape_acts.induct)
  case (4 xs)
  then have n: "\<forall>x\<in>set xs. length x = elem_size xs"
    by (simp add: list_all_iff)
  from 4(2,4) show ?case
    by (auto simp: and_then_Ret_iff length_concat_uniform [OF n] simp del: length_concat intro: pop_raw_took)
next
  case (6 fd)
  then show ?case
    by (auto simp: and_then_Ret_iff split: prod.splits intro: readFd_took)
next
  case (7)
  then show ?case by (simp add: took_def)
next
  case (8 a as)
  from 8(6) obtain b e cs where
    1: "read_act (shape_act a) d = Ret (b, e)" and 2: "read_all (shape_acts as) e = Ret (cs, d')"
    unfolding shape_acts.simps read_all_Cons_Ret by blast
  have t: "took (length (flat_act a)) d e"
    using 8(1) [OF _ 8(4,5) 1] 8(3) by simp
  then have "took (length (flat_acts as)) e d'"
    using 8(2) [OF _ _ _ 2] 8(3,4) by (simp add: took_def)
  with t show ?case by (auto dest: took_trans)
qed (auto simp: and_then_Ret_iff intro: pop_raw_took)

text \<open>From an offset beyond the archive a reader that needs a byte fails.\<close>

lemma pop_beyond_aux:
  "length (ar_data (dz_archive d)) < unat (dz_byteOffset d) \<Longrightarrow> readable v \<Longrightarrow> pop (shape_of v) d = Ret (w, d')
     \<Longrightarrow> flat v = [] \<and> dz_archive d' = dz_archive d \<and> dz_byteOffset d' = dz_byteOffset d"
  "length (ar_data (dz_archive d)) < unat (dz_byteOffset d) \<Longrightarrow> readable_act a \<Longrightarrow> read_act (shape_act a) d = Ret (b, d')
     \<Longrightarrow> flat_act a = [] \<and> dz_archive d' = dz_archive d \<and> dz_byteOffset d' = dz_byteOffset d"
  "length (ar_data (dz_archive d)) < unat (dz_byteOffset d) \<Longrightarrow> readable_acts as \<Longrightarrow> read_all (shape_acts as) d = Ret (bs, d')
     \<Longrightarrow> flat_acts as = [] \<and> dz_archive d' = dz_archive d \<and> dz_byteOffset d' = dz_byteOffset d"
proof (induction v and a and as arbitrary: d w d' and d b d' and d bs d' rule: shape_of_shape_act_shape_acts.induct)
  case (8 a as)
  from 8(5) obtain b e cs where
    1: "read_act (shape_act a) d = Ret (b, e)" and 2: "read_all (shape_acts as) e = Ret (cs, d')"
    unfolding shape_acts.simps read_all_Cons_Ret by blast
  have "flat_act a = [] \<and> dz_archive e = dz_archive d \<and> dz_byteOffset e = dz_byteOffset d"
    using 8(1) [OF 8(3) _ 1] 8(4) by simp
  with 8(2) [OF _ _ 2] 8(3,4) show ?case by simp
next
  case (2 as)
  from 2(4) obtain bs where "read_all (shape_acts as) d = Ret (bs, d')"
    by (auto simp: and_then_Ret_iff)
  from 2(1) [OF 2(2) _ this] 2(3) show ?case by simp
next
  case (3 v)
  from 3(4) obtain w where "pop (shape_of v) d = Ret (w, d')"
    by (auto simp: and_then_Ret_iff)
  from 3(1) [OF 3(2) _ this] 3(3) show ?case by simp
qed (auto simp: and_then_Ret_iff pop_raw_def readFd_def Let_def)

lemma pop_beyond:
  "readable v \<Longrightarrow> flat v \<noteq> [] \<Longrightarrow> length (ar_data (dz_archive d)) < unat (dz_byteOffset d) \<Longrightarrow>
   pop (shape_of v) d \<noteq> Ret (w, d')"
  using pop_beyond_aux(1) by blast

lemma offset_lemma:
  assumes "readable v" and "flat v \<noteq> []" and "length (flat v) < 2 ^ 64" and "\<forall>n. length (block n) = n"
    and "and_then (serialize_archive block v) (deserialize_archive junk1 junk2 (shape_of v)) = Ret w"
  shows "junk1 = 0"
proof -
  let ?a = "\<lparr>ar_data = flat v, ar_length = of_nat (length (flat v)), ar_fds = fds v @ fds v\<rparr>"
  let ?d = "Deserializer_new junk1 junk2 ?a"
  obtain d' where pop: "pop (shape_of v) ?d = Ret (w, d')"
    using assms(5) serialize_exact_lemma [OF assms(3,4)]
    by (auto simp: deserialize_archive_def and_then_Ret_iff)
  have "unat junk1 + length (flat v) \<le> length (flat v)"
  proof (cases "unat junk1 \<le> length (flat v)")
    case True
    then have "took (length (flat v)) ?d d'"
      using pop assms(1,3) by (intro pop_took(1)) (simp_all add: Deserializer_new_def)
    then show ?thesis by (simp add: took_def Deserializer_new_def)
  next
    case False
    then show ?thesis using pop_beyond [OF assms(1,2), of ?d w d'] pop by (simp add: Deserializer_new_def)
  qed
  then show ?thesis by (simp add: unat_eq_zero)
qed

text \<open>
  The deserializer works only by luck: its constructor leaves the read offset uninitialised, and
  reading a non-empty value back succeeds exactly when the memory happened to hold $0$.
\<close>

theorem deserializer_offset:
  assumes "readable v" and "flat v \<noteq> []" and "length (flat v) < 2 ^ 64" and "2 * length (fds v) < 2 ^ 64"
    and "\<forall>n. length (block n) = n"
  shows "(\<exists>w. and_then (serialize_archive block v) (deserialize_archive junk1 0 (shape_of v)) = Ret w)
    \<longleftrightarrow> junk1 = 0"
proof
  assume "\<exists>w. and_then (serialize_archive block v) (deserialize_archive junk1 0 (shape_of v)) = Ret w"
  then show "junk1 = 0"
    using offset_lemma [OF assms(1-3,5)] by blast
next
  assume "junk1 = 0"
  then show "\<exists>w. and_then (serialize_archive block v) (deserialize_archive junk1 0 (shape_of v)) = Ret w"
    using archive_roundtrip [OF assms(1,3-5)] by blast
qed

end
