(* ===== verification/Std_Map.thy ===== *)
theory Std_Map
  imports Prelude
begin

text \<open>
  The ordered containers of the standard library as the program uses them (\<^verbatim>\<open>std::map\<close>: \<^verbatim>\<open>find\<close>,
  assignment through \<^verbatim>\<open>operator[]\<close>, \<^verbatim>\<open>erase\<close>; \<^verbatim>\<open>std::set\<close>: \<^verbatim>\<open>count\<close>), over an arbitrary comparison
  function, and the requirement the standard puts on that function. The laws of the containers hold
  under the requirement; the key types of the program are checked against it where they are defined.
\<close>

section \<open>Containers as sorted association lists\<close>

fun map_find :: "('k \<Rightarrow> 'k \<Rightarrow> bool) \<Rightarrow> 'k \<Rightarrow> ('k \<times> 'v) list \<Rightarrow> 'v option" where
  "map_find lt k [] = None"
| "map_find lt k ((k', v) # xs) =
     (if lt k' k then map_find lt k xs else if lt k k' then None else Some v)"

fun map_put :: "('k \<Rightarrow> 'k \<Rightarrow> bool) \<Rightarrow> 'k \<Rightarrow> 'v \<Rightarrow> ('k \<times> 'v) list \<Rightarrow> ('k \<times> 'v) list" where
  "map_put lt k v [] = [(k, v)]"
| "map_put lt k v ((k', v') # xs) =
     (if lt k' k then (k', v') # map_put lt k v xs
      else if lt k k' then (k, v) # (k', v') # xs
      else (k', v) # xs)"

fun map_erase :: "('k \<Rightarrow> 'k \<Rightarrow> bool) \<Rightarrow> 'k \<Rightarrow> ('k \<times> 'v) list \<Rightarrow> ('k \<times> 'v) list" where
  "map_erase lt k [] = []"
| "map_erase lt k ((k', v') # xs) =
     (if lt k' k then (k', v') # map_erase lt k xs
      else if lt k k' then (k', v') # xs
      else xs)"

definition map_sorted :: "('k \<Rightarrow> 'k \<Rightarrow> bool) \<Rightarrow> ('k \<times> 'v) list \<Rightarrow> bool" where
  "map_sorted lt xs = sorted_wrt lt (map fst xs)"

definition set_count :: "('k \<Rightarrow> 'k \<Rightarrow> bool) \<Rightarrow> 'k \<Rightarrow> 'k list \<Rightarrow> nat" where
  "set_count lt k xs = (if map_find lt k (map (\<lambda>x. (x, ())) xs) = None then 0 else 1)"

section \<open>The requirement on keys\<close>

text \<open>
  Strict weak order, the Compare requirement of the standard.
\<close>

definition strict_weak_order :: "('k \<Rightarrow> 'k \<Rightarrow> bool) \<Rightarrow> bool" where
  "strict_weak_order lt \<longleftrightarrow>
     (\<forall>x. \<not> lt x x) \<and> (\<forall>x y. lt x y \<longrightarrow> \<not> lt y x) \<and> (\<forall>x y z. lt x y \<longrightarrow> lt y z \<longrightarrow> lt x z)
     \<and> (\<forall>x y z. \<not> lt x y \<and> \<not> lt y x \<and> \<not> lt y z \<and> \<not> lt z y \<longrightarrow> \<not> lt x z \<and> \<not> lt z x)"

text \<open>A strict weak order whose equivalent keys are equal.\<close>

locale key_order =
  fixes lt :: "'k \<Rightarrow> 'k \<Rightarrow> bool"
  assumes irrefl: "\<not> lt x x"
    and trans: "lt x y \<Longrightarrow> lt y z \<Longrightarrow> lt x z"
    and total: "lt x y \<or> x = y \<or> lt y x"
begin

lemma asym: "lt x y \<Longrightarrow> \<not> lt y x"
  using irrefl trans by blast

lemma swo: "strict_weak_order lt"
  unfolding strict_weak_order_def using irrefl asym trans total by metis

lemma incomparable: "\<not> lt x y \<Longrightarrow> \<not> lt y x \<Longrightarrow> x = y"
  using total by blast

lemma sorted_Cons:
  "map_sorted lt ((k, v) # xs) \<longleftrightarrow> (\<forall>k'\<in>fst ` set xs. lt k k') \<and> map_sorted lt xs"
  by (auto simp: map_sorted_def)

lemma sorted_Nil: "map_sorted lt []"
  by (simp add: map_sorted_def)

lemma find_map_of: "map_sorted lt xs \<Longrightarrow> map_find lt k xs = map_of xs k"
proof (induction xs)
  case Nil
  then show ?case by simp
next
  case (Cons a xs)
  obtain k' v where a: "a = (k', v)" by fastforce
  have s: "\<forall>k''\<in>fst ` set xs. lt k' k''" "map_sorted lt xs"
    using Cons.prems by (simp_all add: a sorted_Cons)
  have "map_of xs k = None" if "lt k k'"
  proof -
    have "k \<notin> fst ` set xs" using s(1) that asym trans irrefl by blast
    then show ?thesis by (simp add: map_of_eq_None_iff)
  qed
  with Cons.IH [OF s(2)] show ?case
    by (auto simp: a irrefl dest: incomparable)
qed

lemma neqI: "lt x y \<Longrightarrow> x \<noteq> y \<and> y \<noteq> x"
  using irrefl by blast

lemma keys_put: "fst ` set (map_put lt k v xs) \<subseteq> insert k (fst ` set xs)"
proof (induction xs)
  case (Cons a xs)
  then show ?case by (cases a) auto
qed simp

lemma keys_erase: "fst ` set (map_erase lt k xs) \<subseteq> fst ` set xs"
proof (induction xs)
  case (Cons a xs)
  then show ?case by (cases a) auto
qed simp

lemma sorted_put: "map_sorted lt xs \<Longrightarrow> map_sorted lt (map_put lt k v xs)"
proof (induction xs)
  case Nil
  then show ?case by (simp add: map_sorted_def)
next
  case (Cons a xs)
  obtain k' v' where a: "a = (k', v')" by fastforce
  have s: "\<forall>k''\<in>fst ` set xs. lt k' k''" "map_sorted lt xs"
    using Cons.prems by (simp_all add: a sorted_Cons)
  have "\<forall>k''\<in>fst ` set (map_put lt k v xs). lt k' k''" if "lt k' k"
    using keys_put [of k v xs] s(1) that by blast
  moreover have "\<forall>k''\<in>insert k' (fst ` set xs). lt k k''" if "lt k k'"
    using s(1) that trans by blast
  ultimately show ?case
    using s Cons.IH [OF s(2)] by (simp add: a sorted_Cons)
qed

lemma sorted_erase: "map_sorted lt xs \<Longrightarrow> map_sorted lt (map_erase lt k xs)"
proof (induction xs)
  case Nil
  then show ?case by simp
next
  case (Cons a xs)
  obtain k' v' where a: "a = (k', v')" by fastforce
  have s: "\<forall>k''\<in>fst ` set xs. lt k' k''" "map_sorted lt xs"
    using Cons.prems by (simp_all add: a sorted_Cons)
  have "\<forall>k''\<in>fst ` set (map_erase lt k xs). lt k' k''"
    using keys_erase [of k xs] s(1) by blast
  then show ?case
    using s Cons.IH [OF s(2)] by (simp add: a sorted_Cons)
qed

lemma map_of_put: "map_sorted lt xs \<Longrightarrow> map_of (map_put lt k v xs) = (map_of xs)(k \<mapsto> v)"
proof (induction xs)
  case Nil
  then show ?case by simp
next
  case (Cons a xs)
  obtain k' v' where a: "a = (k', v')" by fastforce
  have "map_sorted lt xs" using Cons.prems by (simp add: a sorted_Cons)
  note IH = Cons.IH [OF this]
  consider "lt k' k" | "lt k k'" "\<not> lt k' k" | "k = k'" "\<not> lt k' k" "\<not> lt k k'"
    using total asym irrefl by blast
  then show ?case
  proof cases
    case 1
    then show ?thesis using neqI [OF 1] IH by (auto simp: a fun_eq_iff)
  qed (auto simp: a fun_eq_iff)
qed

lemma map_of_erase: "map_sorted lt xs \<Longrightarrow> map_of (map_erase lt k xs) = (map_of xs)(k := None)"
proof (induction xs)
  case Nil
  then show ?case by simp
next
  case (Cons a xs)
  obtain k' v' where a: "a = (k', v')" by fastforce
  have s: "\<forall>k''\<in>fst ` set xs. lt k' k''" "map_sorted lt xs"
    using Cons.prems by (simp_all add: a sorted_Cons)
  note IH = Cons.IH [OF s(2)]
  have absent: "map_of xs k = None" if "\<not> lt k' k"
    using s(1) that by (auto simp: map_of_eq_None_iff)
  consider "lt k' k" | "lt k k'" "\<not> lt k' k" | "k = k'" "\<not> lt k' k" "\<not> lt k k'"
    using total asym irrefl by blast
  then show ?case
  proof cases
    case 1
    then show ?thesis using neqI [OF 1] IH by (auto simp: a fun_eq_iff)
  next
    case 2
    then show ?thesis using neqI [OF 2(1)] absent by (auto simp: a fun_eq_iff)
  next
    case 3
    then show ?thesis using absent by (auto simp: a fun_eq_iff)
  qed
qed

text \<open>The map interface: what a lookup returns after an assignment and after an erasure.\<close>

lemma find_put: "map_sorted lt xs \<Longrightarrow>
  map_find lt k' (map_put lt k v xs) = (if k' = k then Some v else map_find lt k' xs)"
  by (simp add: find_map_of sorted_put map_of_put)

lemma find_erase: "map_sorted lt xs \<Longrightarrow>
  map_find lt k' (map_erase lt k xs) = (if k' = k then None else map_find lt k' xs)"
  by (simp add: find_map_of sorted_erase map_of_erase)

lemma count_member: "sorted_wrt lt xs \<Longrightarrow> set_count lt k xs = (if k \<in> set xs then 1 else 0)"
proof -
  assume "sorted_wrt lt xs"
  then have "map_sorted lt (map (\<lambda>x. (x, ())) xs)"
    by (simp add: map_sorted_def comp_def)
  then show ?thesis
    by (simp add: set_count_def find_map_of map_of_eq_None_iff image_image)
qed

end

section \<open>Lexicographic comparison\<close>

text \<open>\<^verbatim>\<open>std::lexicographical_compare\<close>, the order of \<^verbatim>\<open>std::vector\<close> and \<^verbatim>\<open>std::string\<close>.\<close>

fun lex_less :: "('a \<Rightarrow> 'a \<Rightarrow> bool) \<Rightarrow> 'a list \<Rightarrow> 'a list \<Rightarrow> bool" where
  "lex_less lt [] ys = (ys \<noteq> [])"
| "lex_less lt (x # xs) [] = False"
| "lex_less lt (x # xs) (y # ys) = (lt x y \<or> (\<not> lt y x \<and> lex_less lt xs ys))"

context key_order
begin

lemma lex_irrefl: "\<not> lex_less lt xs xs"
  by (induction xs) (simp_all add: irrefl)

lemma lex_total: "lex_less lt xs ys \<or> xs = ys \<or> lex_less lt ys xs"
proof (induction xs arbitrary: ys)
  case Nil
  then show ?case by (cases ys) auto
next
  case (Cons x xs)
  show ?case
  proof (cases ys)
    case (Cons y zs)
    then show ?thesis using Cons.IH [of zs] total [of x y] by auto
  qed simp
qed

lemma lex_trans: "lex_less lt xs ys \<Longrightarrow> lex_less lt ys zs \<Longrightarrow> lex_less lt xs zs"
proof (induction xs arbitrary: ys zs)
  case Nil
  then show ?case by (cases ys; cases zs) auto
next
  case (Cons x xs)
  then obtain y ys' where y: "ys = y # ys'" by (cases ys) auto
  with Cons.prems obtain z zs' where z: "zs = z # zs'" by (cases zs) auto
  from Cons.prems Cons.IH [of ys' zs'] show ?case
    using trans total asym unfolding y z lex_less.simps by metis
qed

lemma lex_key_order: "key_order (lex_less lt)"
  by unfold_locales (simp add: lex_irrefl, blast intro: lex_trans, rule lex_total)

end

text \<open>
  \<^verbatim>\<open>std::string\<close> compares its characters as unsigned bytes.
\<close>

definition char_less :: "char \<Rightarrow> char \<Rightarrow> bool" where
  "char_less c d \<longleftrightarrow> (of_char c :: nat) < of_char d"

definition string_less :: "string \<Rightarrow> string \<Rightarrow> bool" where
  "string_less = lex_less char_less"

interpretation char_key: key_order char_less
  by unfold_locales (auto simp: char_less_def nat_neq_iff [symmetric] linorder_neq_iff)

interpretation string_key: key_order string_less
  unfolding string_less_def by (rule char_key.lex_key_order)

end
