(* ===== verification/Addresses.thy ===== *)
theory Addresses
  imports Ipc Std_Map
begin

text \<open>
  \<^verbatim>\<open>IPAddress\<close> (\<^verbatim>\<open>include/IPAddress.hpp\<close>, \<^verbatim>\<open>common/IPAddress.cpp\<close>) and \<^verbatim>\<open>SocketAddress\<close>
  (\<^verbatim>\<open>include/SocketAddress.hpp\<close>, \<^verbatim>\<open>common/SocketAddress.cpp\<close>), at the level of their object
  representation: unions of the native structures of the Linux socket interface.
\<close>

section \<open>Address families\<close>

datatype AddressFamily = IPv4 | IPv6

text \<open>\<^verbatim>\<open>AF_INET\<close> and \<^verbatim>\<open>AF_INET6\<close>, the underlying values of the enumeration.\<close>

primrec family_value :: "AddressFamily \<Rightarrow> u32" where
  "family_value IPv4 = 2"
| "family_value IPv6 = 10"

definition family_less :: "AddressFamily \<Rightarrow> AddressFamily \<Rightarrow> bool" where
  "family_less f g \<longleftrightarrow> family_value f < family_value g"

section \<open>IPAddress\<close>

text \<open>
  The union \<^verbatim>\<open>addr_\<close> as 16 bytes. An IPv4 address occupies the first four; the constructor leaves the
  others as they were (\<open>junk\<close>).
\<close>

record ip_address =
  ip_addr :: "byte list"
  ip_family :: AddressFamily

definition IPAddress_in :: "byte list \<Rightarrow> byte list \<Rightarrow> ip_address" where
  "IPAddress_in junk a = \<lparr>ip_addr = memcpy junk 0 a, ip_family = IPv4\<rparr>"

definition IPAddress_in6 :: "byte list \<Rightarrow> ip_address" where
  "IPAddress_in6 a = \<lparr>ip_addr = a, ip_family = IPv6\<rparr>"

definition native_size :: "ip_address \<Rightarrow> nat" where
  "native_size ip = (case ip_family ip of IPv4 \<Rightarrow> 4 | IPv6 \<Rightarrow> 16)"

definition ip_in :: "ip_address \<Rightarrow> byte list" where
  "ip_in ip = take 4 (ip_addr ip)"

definition ip_in6 :: "ip_address \<Rightarrow> byte list" where
  "ip_in6 ip = ip_addr ip"

definition ip_less :: "ip_address \<Rightarrow> ip_address \<Rightarrow> bool" where
  "ip_less lhs rhs \<longleftrightarrow>
     family_less (ip_family lhs) (ip_family rhs)
     \<or> memcmp (ip_in6 lhs) (ip_in6 rhs) (native_size lhs) \<noteq> 0"

definition ip_eq :: "ip_address \<Rightarrow> ip_address \<Rightarrow> bool" where
  "ip_eq lhs rhs \<longleftrightarrow>
     ip_family lhs = ip_family rhs \<and> memcmp (ip_in6 lhs) (ip_in6 rhs) (native_size lhs) = 0"

text \<open>
  \<^verbatim>\<open>parse\<close> and \<^verbatim>\<open>str\<close>. \<open>pton\<close> is \<^verbatim>\<open>inet_pton\<close> (the address, if it returns 1) and \<open>ntop\<close> is
  \<^verbatim>\<open>inet_ntop\<close>; both get the native family. \<^verbatim>\<open>c_str()\<close> ends at the first NUL.
\<close>

definition c_str :: "string \<Rightarrow> string" where
  "c_str s = takeWhile (\<lambda>c. c \<noteq> CHR 0x00) s"

definition IPAddress_parse ::
  "(u32 \<Rightarrow> string \<Rightarrow> byte list option) \<Rightarrow> byte list \<Rightarrow> string \<Rightarrow> ip_address outcome" where
  "IPAddress_parse pton junk addr =
     (if CHR '':'' \<in> set addr then
        (case pton (family_value IPv6) (c_str addr) of
           Some native \<Rightarrow> Ret (IPAddress_in6 native)
         | None \<Rightarrow> Throw (InvalidArgument ''Cannot parse address''))
      else
        (case pton (family_value IPv4) (c_str addr) of
           Some native \<Rightarrow> Ret (IPAddress_in junk native)
         | None \<Rightarrow> Throw (InvalidArgument ''Cannot parse address'')))"

definition IPAddress_str :: "(u32 \<Rightarrow> byte list \<Rightarrow> string) \<Rightarrow> ip_address \<Rightarrow> string" where
  "IPAddress_str ntop ip = c_str (ntop (family_value (ip_family ip)) (take (native_size ip) (ip_addr ip)))"

text \<open>
  \<^verbatim>\<open>serialize\<close>: the family as an \<^verbatim>\<open>int\<close>, then the native address. \<^verbatim>\<open>deserialize\<close> constructs the address
  at the pointer it is given; for a family that is neither of the two no constructor runs and the memory at
  the pointer stays as it was, which is \<open>None\<close> here.
\<close>

definition IPAddress_serialize :: "ip_address \<Rightarrow> val" where
  "IPAddress_serialize ip =
     Obj [Write (Pod (bytes_of_u32 (family_value (ip_family ip)))),
          (case ip_family ip of IPv4 \<Rightarrow> Write (Pod (ip_in ip)) | IPv6 \<Rightarrow> Write (Pod (ip_in6 ip)))]"

definition IPAddress_deserialize :: "byte list \<Rightarrow> deserializer \<Rightarrow> (ip_address option \<times> deserializer) outcome" where
  "IPAddress_deserialize junk d =
     and_then (pop_raw 4 d) (\<lambda>(f, d1).
       if u32_of_bytes f = family_value IPv4 then
         and_then (pop_raw 4 d1) (\<lambda>(a, d2). Ret (Some (IPAddress_in junk a), d2))
       else if u32_of_bytes f = family_value IPv6 then
         and_then (pop_raw 16 d1) (\<lambda>(a, d2). Ret (Some (IPAddress_in6 a), d2))
       else Ret (None, d1))"

section \<open>SocketAddress\<close>

text \<open>
  The union of \<^verbatim>\<open>sockaddr_in\<close> (16 bytes: family, port, address, padding) and \<^verbatim>\<open>sockaddr_in6\<close> (28 bytes:
  family, port, flow information, address, scope) as 28 bytes.
\<close>

record socket_address =
  sa_addr :: "byte list"

definition sa_native_family :: "socket_address \<Rightarrow> u16" where
  "sa_native_family a = u16_of_bytes (take 2 (sa_addr a))"

definition sa_is_v6 :: "socket_address \<Rightarrow> bool" where
  "sa_is_v6 a \<longleftrightarrow> sa_native_family a = 10"

text \<open>
  \<^verbatim>\<open>family()\<close> casts the stored number to the enumeration. The constructors store no other number than
  the two enumerators (\<open>wf_sockaddr\<close> below); every other number would run off the end of the switches.
\<close>

definition sa_family :: "socket_address \<Rightarrow> AddressFamily" where
  "sa_family a = (if sa_is_v6 a then IPv6 else IPv4)"

definition sa_native_len :: "socket_address \<Rightarrow> nat" where
  "sa_native_len a = (case sa_family a of IPv4 \<Rightarrow> 16 | IPv6 \<Rightarrow> 28)"

text \<open>\<open>mem\<close> is the memory at the pointer argument.\<close>

definition SocketAddress_native :: "byte list \<Rightarrow> socket_address outcome" where
  "SocketAddress_native mem =
     (if length mem < 2 then UB OutOfBounds
      else if u16_of_bytes (take 2 mem) = 2 then
        (if length mem < 16 then UB OutOfBounds
         else Ret \<lparr>sa_addr = memcpy (replicate 28 0) 0 (take 16 mem)\<rparr>)
      else if u16_of_bytes (take 2 mem) = 10 then
        (if length mem < 28 then UB OutOfBounds
         else Ret \<lparr>sa_addr = memcpy (replicate 28 0) 0 (take 28 mem)\<rparr>)
      else Throw (InvalidArgument ''Unsupported address family''))"

definition SocketAddress_ip :: "ip_address \<Rightarrow> u16 \<Rightarrow> socket_address" where
  "SocketAddress_ip ip port =
     (let m = replicate 28 0;
          m = memcpy m 0 (bytes_of_u16 (ucast (family_value (ip_family ip))));
          m = memcpy m 2 (bytes_of_u16 (htons port))
      in \<lparr>sa_addr = (case ip_family ip of IPv4 \<Rightarrow> memcpy m 4 (ip_in ip) | IPv6 \<Rightarrow> memcpy m 8 (ip_in6 ip))\<rparr>)"

definition sa_address :: "byte list \<Rightarrow> socket_address \<Rightarrow> ip_address" where
  "sa_address junk a =
     (case sa_family a of
        IPv4 \<Rightarrow> IPAddress_in junk (take 4 (drop 4 (sa_addr a)))
      | IPv6 \<Rightarrow> IPAddress_in6 (take 16 (drop 8 (sa_addr a))))"

definition sa_port :: "socket_address \<Rightarrow> u16" where
  "sa_port a = u16_of_bytes (take 2 (drop 2 (sa_addr a)))"

text \<open>The comparison returns the \<^verbatim>\<open>int\<close> of the conditional as a \<^verbatim>\<open>bool\<close>: every non-zero value is true.\<close>

definition sa_less :: "socket_address \<Rightarrow> socket_address \<Rightarrow> bool" where
  "sa_less lhs rhs \<longleftrightarrow>
     (if sa_native_len lhs < sa_native_len rhs then - 1
      else memcmp (sa_addr lhs) (sa_addr rhs) (sa_native_len lhs)) \<noteq> 0"

definition sa_eq :: "socket_address \<Rightarrow> socket_address \<Rightarrow> bool" where
  "sa_eq lhs rhs \<longleftrightarrow>
     sa_family lhs = sa_family rhs \<and> memcmp (sa_addr lhs) (sa_addr rhs) (sa_native_len lhs) = 0"

section \<open>Well-formed addresses\<close>

definition wf_ip :: "ip_address \<Rightarrow> bool" where
  "wf_ip ip \<longleftrightarrow> length (ip_addr ip) = 16"

definition ip_native :: "ip_address \<Rightarrow> byte list" where
  "ip_native ip = take (native_size ip) (ip_addr ip)"

definition wf_sockaddr :: "socket_address \<Rightarrow> bool" where
  "wf_sockaddr a \<longleftrightarrow> length (sa_addr a) = 28 \<and>
     (sa_native_family a = 10 \<or> sa_native_family a = 2 \<and> drop 16 (sa_addr a) = replicate 12 0)"

lemma wf_IPAddress_in [wf_intros]: "length junk = 16 \<Longrightarrow> length a = 4 \<Longrightarrow> wf_ip (IPAddress_in junk a)"
  by (simp add: wf_ip_def IPAddress_in_def)

lemma wf_IPAddress_in6 [wf_intros]: "length a = 16 \<Longrightarrow> wf_ip (IPAddress_in6 a)"
  by (simp add: wf_ip_def IPAddress_in6_def)

lemma native_IPAddress_in [simp]: "length a = 4 \<Longrightarrow> ip_native (IPAddress_in junk a) = a"
  by (simp add: ip_native_def native_size_def IPAddress_in_def memcpy_def)

lemma native_IPAddress_in6 [simp]: "length a = 16 \<Longrightarrow> ip_native (IPAddress_in6 a) = a"
  by (simp add: ip_native_def native_size_def IPAddress_in6_def)

lemma family_IPAddress [simp]:
  "ip_family (IPAddress_in junk a) = IPv4" "ip_family (IPAddress_in6 a) = IPv6"
  by (simp_all add: IPAddress_in_def IPAddress_in6_def)

lemma native_size_le: "native_size ip \<le> 16"
  by (simp add: native_size_def split: AddressFamily.split)

lemma length_ip_native: "wf_ip ip \<Longrightarrow> length (ip_native ip) = native_size ip"
  using native_size_le [of ip] by (simp add: ip_native_def wf_ip_def)

lemma ip_eq_iff:
  "wf_ip a \<Longrightarrow> wf_ip b \<Longrightarrow> ip_eq a b \<longleftrightarrow> ip_family a = ip_family b \<and> ip_native a = ip_native b"
  using native_size_le [of a]
  by (auto simp: ip_eq_def wf_ip_def ip_in6_def memcmp_eq_0_iff ip_native_def native_size_def)

lemma ip_less_same_family:
  "ip_family a = ip_family b \<Longrightarrow> ip_less a b \<longleftrightarrow> \<not> ip_eq a b"
  by (auto simp: ip_less_def ip_eq_def family_less_def)

section \<open>Properties of IP addresses\<close>

text \<open>
  C39. Parsing what \<^verbatim>\<open>str\<close> printed gives the same address back, for both families, if \<^verbatim>\<open>inet_pton\<close>
  inverts \<^verbatim>\<open>inet_ntop\<close> on this address and the printed form has a colon exactly for IPv6, as both are
  documented to; whatever the unused bytes of the union hold.
\<close>

theorem ip_parse_str:
  assumes "wf_ip ip" and "length junk = 16"
    and inv: "pton (family_value (ip_family ip)) (IPAddress_str ntop ip) = Some (ip_native ip)"
    and colon: "CHR '':'' \<in> set (IPAddress_str ntop ip) \<longleftrightarrow> ip_family ip = IPv6"
  shows "\<exists>ip'. IPAddress_parse pton junk (IPAddress_str ntop ip) = Ret ip' \<and> ip_eq ip' ip \<and> wf_ip ip'"
proof -
  have c: "c_str (IPAddress_str ntop ip) = IPAddress_str ntop ip"
    by (auto simp: IPAddress_str_def c_str_def takeWhile_eq_all_conv dest: set_takeWhileD)
  have len: "length (ip_native ip) = native_size ip"
    using assms(1) by (rule length_ip_native)
  show ?thesis
  proof (cases "ip_family ip")
    case IPv4
    then have "wf_ip (IPAddress_in junk (ip_native ip))"
      using assms(2) len by (intro wf_intros) (simp_all add: native_size_def)
    with IPv4 assms(1) inv colon c len show ?thesis
      by (simp add: IPAddress_parse_def ip_eq_iff native_size_def)
  next
    case IPv6
    then have "wf_ip (IPAddress_in6 (ip_native ip))"
      using len by (intro wf_intros) (simp_all add: native_size_def)
    with IPv6 assms(1) inv colon c len show ?thesis
      by (simp add: IPAddress_parse_def ip_eq_iff native_size_def)
  qed
qed

theorem ip_parse_str_witness:
  "\<exists>ip'. IPAddress_parse (\<lambda>f s. if f = 2 \<and> s = ''1.2.3.4'' then Some [1, 2, 3, 4] else None) (replicate 16 9)
      (IPAddress_str (\<lambda>f a. ''1.2.3.4'') (IPAddress_in (replicate 16 0) [1, 2, 3, 4])) = Ret ip'
    \<and> ip_eq ip' (IPAddress_in (replicate 16 0) [1, 2, 3, 4])"
proof -
  have str: "IPAddress_str (\<lambda>f a. ''1.2.3.4'') (IPAddress_in (replicate 16 0) [1, 2, 3, 4]) = ''1.2.3.4''"
    by (simp add: IPAddress_str_def c_str_def)
  have "wf_ip (IPAddress_in (replicate 16 0) [1, 2, 3, 4])"
    by (simp add: wf_intros)
  from ip_parse_str [OF this, of "replicate 16 9"
      "\<lambda>f s. if f = 2 \<and> s = ''1.2.3.4'' then Some [1, 2, 3, 4] else None" "\<lambda>f a. ''1.2.3.4''"]
  show ?thesis by (auto simp: str)
qed

lemma flat_ip: "flat (IPAddress_serialize ip) = bytes_of_u32 (family_value (ip_family ip)) @ ip_native ip"
  if "wf_ip ip"
  using that by (cases "ip_family ip")
    (simp_all add: IPAddress_serialize_def ip_native_def native_size_def ip_in_def ip_in6_def wf_ip_def)

lemma fds_ip: "fds (IPAddress_serialize ip) = []"
  by (cases "ip_family ip") (simp_all add: IPAddress_serialize_def)

lemma u32_of_bytes_exact: "u32_of_bytes (bytes_of_u32 w) = w"
  using u32_of_bytes_of_u32 [of w "[]"] by simp

text \<open>
  An address survives the archive: what \<^verbatim>\<open>serialize\<close> writes is four bytes of family and the native
  address, and \<^verbatim>\<open>deserialize\<close> with a reader at the start rebuilds an equal address.
\<close>

theorem ip_archive_roundtrip:
  assumes "wf_ip ip" and "length junk = 16" and "\<forall>n. length (block n) = n"
  shows "\<exists>a ip' d. serialize_archive block (IPAddress_serialize ip) = Ret a
    \<and> ar_data a = bytes_of_u32 (family_value (ip_family ip)) @ ip_native ip
    \<and> IPAddress_deserialize junk (Deserializer_new 0 0 a) = Ret (Some ip', d) \<and> ip_eq ip' ip"
proof -
  let ?n = "ip_native ip" and ?f = "bytes_of_u32 (family_value (ip_family ip))"
  let ?a = "\<lparr>ar_data = ?f @ ?n, ar_length = of_nat (length (?f @ ?n)), ar_fds = []\<rparr>"
  have len: "length ?n = native_size ip" "native_size ip \<le> 16"
    using assms(1) by (simp_all add: length_ip_native native_size_le)
  have ser: "serialize_archive block (IPAddress_serialize ip) = Ret ?a"
    using serialize_exact_lemma [OF _ assms(3), of "IPAddress_serialize ip"] assms(1) len
    by (simp add: flat_ip fds_ip)
  have b: "before (?f @ ?n) [] (Deserializer_new 0 0 ?a)"
    using len by (simp add: before_def Deserializer_new_def)
  let ?d1 = "advance 4 0 (Deserializer_new 0 0 ?a)"
  have p1: "pop_raw 4 (Deserializer_new 0 0 ?a) = Ret (?f, ?d1)"
    using pop_raw_before [OF before_prefix [of ?f ?n "[]" "[]"]] b by simp
  have "before ?n [] ?d1"
    using before_advance [of ?f ?n "[]" "[]"] b by simp
  then have p2: "pop_raw (native_size ip) ?d1 = Ret (?n, advance (native_size ip) 0 ?d1)"
    using pop_raw_before len(1) by metis
  show ?thesis
  proof (cases "ip_family ip")
    case IPv4
    then have "ip_eq (IPAddress_in junk ?n) ip"
      using assms len by (simp add: ip_eq_iff wf_intros native_size_def)
    with ser p1 p2 IPv4 show ?thesis
      by (simp add: IPAddress_deserialize_def native_size_def u32_of_bytes_exact)
  next
    case IPv6
    then have "ip_eq (IPAddress_in6 ?n) ip"
      using assms len by (simp add: ip_eq_iff wf_intros native_size_def)
    with ser p1 p2 IPv6 show ?thesis
      by (simp add: IPAddress_deserialize_def native_size_def u32_of_bytes_exact)
  qed
qed

text \<open>
  \<^verbatim>\<open>operator<\<close> of \<^verbatim>\<open>IPAddress\<close> is not an order: within one family it is inequality, so any two
  different addresses are each less than the other, and the relation does not satisfy the requirement
  of the ordered containers; \<^verbatim>\<open>operator==\<close> compares exactly family and native address.
\<close>

theorem ip_less_not_order:
  "\<not> strict_weak_order ip_less
   \<and> (\<forall>a b. wf_ip a \<and> wf_ip b \<and> ip_family a = ip_family b \<and> ip_native a \<noteq> ip_native b
        \<longrightarrow> ip_less a b \<and> ip_less b a)"
proof -
  have both: "ip_less a b \<and> ip_less b a"
    if "wf_ip a" "wf_ip b" "ip_family a = ip_family b" "ip_native a \<noteq> ip_native b" for a b
    using that by (simp add: ip_less_same_family ip_eq_iff)
  have "ip_less (IPAddress_in6 (replicate 16 0)) (IPAddress_in6 (replicate 16 1))
      \<and> ip_less (IPAddress_in6 (replicate 16 1)) (IPAddress_in6 (replicate 16 0))"
    by (rule both) (simp_all add: wf_intros replicate_eq_replicate)
  then show ?thesis
    using both unfolding strict_weak_order_def by blast
qed

section \<open>Properties of socket addresses\<close>

lemma replicate_split: "replicate (m + n) x = replicate m x @ replicate n x"
  by (rule replicate_add)

lemma memcpy_replicate:
  "k + length src + r = n \<Longrightarrow>
   memcpy (pre @ replicate n x) (length pre + k) src = pre @ replicate k x @ src @ replicate r x"
  by (auto simp: memcpy_def)

lemma sockaddr_prefix:
  assumes "length f = 2" and "length p = 2"
  shows "memcpy (memcpy (replicate 28 0) 0 f) 2 p = (f @ p) @ replicate 24 0"
  using memcpy_replicate [of 0 f 26 28 "[]" 0] memcpy_replicate [of 0 p 24 26 f 0] assms by simp

lemma sockaddr_layout:
  assumes "wf_ip ip"
  shows "sa_addr (SocketAddress_ip ip port) =
    bytes_of_u16 (ucast (family_value (ip_family ip))) @ bytes_of_u16 (htons port) @
    (case ip_family ip of IPv4 \<Rightarrow> ip_native ip @ replicate 20 0
     | IPv6 \<Rightarrow> replicate 4 0 @ ip_native ip @ replicate 4 0)"
proof (cases "ip_family ip")
  case IPv4
  then have n: "ip_in ip = ip_native ip" "length (ip_native ip) = 4"
    using assms by (simp_all add: ip_in_def ip_native_def native_size_def wf_ip_def)
  let ?fp = "bytes_of_u16 2 @ bytes_of_u16 (htons port)"
  have "memcpy (?fp @ replicate 24 0) 4 (ip_native ip) = ?fp @ ip_native ip @ replicate 20 0"
    using memcpy_replicate [of 0 "ip_native ip" 20 24 ?fp 0] n by simp
  with IPv4 n show ?thesis by (simp add: SocketAddress_ip_def Let_def sockaddr_prefix)
next
  case IPv6
  then have n: "ip_in6 ip = ip_native ip" "length (ip_native ip) = 16"
    using assms by (simp_all add: ip_in6_def ip_native_def native_size_def wf_ip_def)
  let ?fp = "bytes_of_u16 10 @ bytes_of_u16 (htons port)"
  have "memcpy (?fp @ replicate 24 0) 8 (ip_native ip) = ?fp @ replicate 4 0 @ ip_native ip @ replicate 4 0"
    using memcpy_replicate [of 4 "ip_native ip" 4 24 ?fp 0] n by simp
  with IPv6 n show ?thesis by (simp add: SocketAddress_ip_def Let_def sockaddr_prefix)
qed

lemma u16_of_bytes_exact: "u16_of_bytes (bytes_of_u16 w) = w"
  using u16_of_bytes_of_u16 [of w "[]"] by simp

lemma sockaddr_family:
  "wf_ip ip \<Longrightarrow> sa_native_family (SocketAddress_ip ip port) = ucast (family_value (ip_family ip))"
  by (simp add: sa_native_family_def sockaddr_layout u16_of_bytes_exact)

lemma sockaddr_family' [simp]: "wf_ip ip \<Longrightarrow> sa_family (SocketAddress_ip ip port) = ip_family ip"
  by (cases "ip_family ip") (simp_all add: sa_family_def sa_is_v6_def sockaddr_family)

lemma sockaddr_port: "wf_ip ip \<Longrightarrow> sa_port (SocketAddress_ip ip port) = htons port"
  by (simp add: sa_port_def sockaddr_layout u16_of_bytes_exact)

lemma sockaddr_ip_native:
  "wf_ip ip \<Longrightarrow> length junk = 16 \<Longrightarrow> wf_ip (sa_address junk (SocketAddress_ip ip port))
     \<and> ip_eq (sa_address junk (SocketAddress_ip ip port)) ip"
  by (cases "ip_family ip")
    (simp_all add: sa_address_def sockaddr_layout wf_intros ip_eq_iff length_ip_native native_size_def)

lemma wf_SocketAddress_ip [wf_intros]: "wf_ip ip \<Longrightarrow> wf_sockaddr (SocketAddress_ip ip port)"
  by (cases "ip_family ip")
    (simp_all add: wf_sockaddr_def sockaddr_family sockaddr_layout length_ip_native native_size_def)

lemma wf_SocketAddress_native [wf_intros]: "SocketAddress_native mem = Ret a \<Longrightarrow> wf_sockaddr a"
  by (auto simp: SocketAddress_native_def wf_sockaddr_def sa_native_family_def memcpy_def split: if_splits)

lemma sa_native_len_le: "sa_native_len a \<le> 28"
  by (simp add: sa_native_len_def split: AddressFamily.split)

lemma sa_eq_iff:
  assumes "wf_sockaddr a" and "wf_sockaddr b"
  shows "sa_eq a b \<longleftrightarrow> a = b"
proof (cases "sa_family a = sa_family b")
  case True
  let ?n = "sa_native_len a"
  have n: "?n \<le> 28" "sa_native_len b = ?n" "?n = 16 \<or> ?n = 28"
    using True sa_native_len_le [of a] by (auto simp: sa_native_len_def split: AddressFamily.splits)
  have len: "length (sa_addr a) = 28" "length (sa_addr b) = 28"
    using assms by (simp_all add: wf_sockaddr_def)
  have pad: "drop ?n (sa_addr x) = (if ?n = 16 then replicate 12 0 else [])"
    if "wf_sockaddr x" "sa_native_len x = ?n" for x
    using that n(3) by (auto simp: wf_sockaddr_def sa_native_len_def sa_family_def sa_is_v6_def
        split: if_splits AddressFamily.splits)
  have "drop ?n (sa_addr a) = drop ?n (sa_addr b)"
    using pad assms n(2) by metis
  then have "take ?n (sa_addr a) = take ?n (sa_addr b) \<longleftrightarrow> sa_addr a = sa_addr b"
    by (metis append_take_drop_id)
  with True n(1) len show ?thesis
    by (auto simp: sa_eq_def memcmp_eq_0_iff intro: socket_address.equality)
next
  case False
  then show ?thesis by (auto simp: sa_eq_def)
qed

text \<open>
  C38. The address and the family put into a \<^verbatim>\<open>SocketAddress\<close> come out again, the object is
  well-formed, and equality of well-formed objects is equality of the whole representation; but
  \<^verbatim>\<open>port()\<close> returns the port in network order although the constructor takes it in host order.
\<close>

theorem sockaddr_roundtrip:
  assumes "wf_ip ip" and "length junk = 16"
  shows "let a = SocketAddress_ip ip port in wf_sockaddr a \<and> sa_family a = ip_family ip
    \<and> ip_eq (sa_address junk a) ip \<and> sa_port a = htons port
    \<and> (\<forall>b. wf_sockaddr b \<longrightarrow> sa_eq a b = (a = b))"
  using assms by (simp add: Let_def wf_intros sockaddr_ip_native sockaddr_port sa_eq_iff)

theorem sockaddr_roundtrip_witness:
  "let ip = IPAddress_in (replicate 16 0) [127, 0, 0, 1]; a = SocketAddress_ip ip 80
   in wf_sockaddr a \<and> sa_family a = IPv4 \<and> ip_eq (sa_address (replicate 16 7) a) ip \<and> sa_port a = 20480"
proof -
  have "wf_ip (IPAddress_in (replicate 16 0) [127, 0, 0, 1])" by (simp add: wf_intros)
  moreover have "htons 80 = 20480" by (simp add: htons_def bytes_of_u16_def u16_of_bytes_def)
  ultimately show ?thesis
    using sockaddr_roundtrip [of "IPAddress_in (replicate 16 0) [127, 0, 0, 1]" "replicate 16 7" 80] by (simp add: Let_def)
qed

lemma sa_less_iff:
  assumes "wf_sockaddr a" and "wf_sockaddr b"
  shows "sa_less a b \<longleftrightarrow> a \<noteq> b"
proof (cases "sa_family a = sa_family b")
  case True
  then have "sa_less a b \<longleftrightarrow> \<not> sa_eq a b"
    by (simp add: sa_less_def sa_eq_def sa_native_len_def)
  with assms show ?thesis by (simp add: sa_eq_iff)
next
  case False
  then have "sa_native_len a < sa_native_len b \<or> sa_native_len a = 28" "a \<noteq> b"
    by (auto simp: sa_native_len_def split: AddressFamily.splits)
  moreover have "length (sa_addr a) = 28" "length (sa_addr b) = 28"
    using assms by (simp_all add: wf_sockaddr_def)
  ultimately show ?thesis
    using socket_address.equality [of a b] by (auto simp: sa_less_def memcmp_eq_0_iff)
qed

text \<open>
  \<^verbatim>\<open>operator<\<close> of \<^verbatim>\<open>SocketAddress\<close>, the comparison of the map of peers, is not an order either:
  of two well-formed addresses, whatever their families, each is less than the other unless they are equal, so the
  map's requirement on its comparison is violated as soon as a socket has two peers.
\<close>

theorem sa_less_not_order:
  "\<not> strict_weak_order sa_less
   \<and> (\<forall>a b. wf_sockaddr a \<and> wf_sockaddr b \<and> a \<noteq> b \<longrightarrow> sa_less a b \<and> sa_less b a)"
proof -
  have both: "sa_less a b \<and> sa_less b a"
    if "wf_sockaddr a" "wf_sockaddr b" "a \<noteq> b" for a b
    using that by (simp add: sa_less_iff)
  let ?ip = "IPAddress_in6 (replicate 16 0)"
  have wf: "wf_ip ?ip" by (simp add: wf_intros)
  have ne: "SocketAddress_ip ?ip 1 \<noteq> SocketAddress_ip ?ip 2"
    using sockaddr_port [OF wf, of 1] sockaddr_port [OF wf, of 2] htons_inject [of 1 2] by force
  have "sa_less (SocketAddress_ip ?ip 1) (SocketAddress_ip ?ip 2) \<and> sa_less (SocketAddress_ip ?ip 2) (SocketAddress_ip ?ip 1)"
    using wf ne by (intro both) (simp_all add: wf_intros)
  then show ?thesis
    using both unfolding strict_weak_order_def by blast
qed

end
