(* ===== verification/Serializable_Types.thy ===== *)
theory Serializable_Types
  imports Addresses "HOL-Library.Sublist"
begin

text \<open>
  The \<^verbatim>\<open>Serializable\<close> concept (\<^verbatim>\<open>include/ipc/is_serializable.hpp\<close>): the types a program writes to and
  reads from archives, the trait that decides which of them are serializable, the overload of
  \<^verbatim>\<open>push\<close> and \<^verbatim>\<open>pop\<close> the compiler selects for a type, and what reading a type from an archive returns.
\<close>

section \<open>Types\<close>

text \<open>
  A type by what the templates ask of it: its \<^verbatim>\<open>sizeof\<close>, whether it is an arithmetic type, an
  enumeration, a pointer, an array or a class, and for a class whether it is a POD, whether its default
  constructor and destructor are trivial (so that a union can hold it), its size, whether a
  specialization of the trait marks it as trivially serializable, and, when argument dependent lookup
  finds the pair \<^verbatim>\<open>serialize\<close>, \<^verbatim>\<open>deserialize\<close>, the calls this pair makes: a fixed sequence, or a tag and
  a \<^verbatim>\<open>switch\<close> over it.
\<close>

datatype ctype =
    Arithmetic nat | Enumeration nat | Pointer | ArrayOf ctype nat
  | Class bool bool nat bool "body option"
and body = Calls "call list" | Switch nat alts
and call = Item ctype | Items ctype nat | Descriptor
and alts = NoAlt | Alt "byte list" "call list" alts

primrec sizeof :: "ctype \<Rightarrow> nat" where
  "sizeof (Arithmetic n) = n"
| "sizeof (Enumeration n) = n"
| "sizeof Pointer = 8"
| "sizeof (ArrayOf t n) = n * sizeof t"
| "sizeof (Class pod triv n marked f) = n"

primrec is_pod :: "ctype \<Rightarrow> bool" where
  "is_pod (Arithmetic n) = True"
| "is_pod (Enumeration n) = True"
| "is_pod Pointer = True"
| "is_pod (ArrayOf t n) = is_pod t"
| "is_pod (Class pod triv n marked f) = pod"

section \<open>The trait\<close>

definition IsComplexSerializable :: "body option \<Rightarrow> bool" where
  "IsComplexSerializable f \<longleftrightarrow> f \<noteq> None"

primrec is_serializable :: "ctype \<Rightarrow> bool" where
  "is_serializable (Arithmetic n) = True"
| "is_serializable (Enumeration n) = True"
| "is_serializable Pointer = False"
| "is_serializable (ArrayOf t n) = is_serializable t"
| "is_serializable (Class pod triv n marked f) = (marked \<or> IsComplexSerializable f)"

section \<open>Instances\<close>

text \<open>
  Whether \<^verbatim>\<open>Serializer::write\<close> of an object of the type compiles: the trait enables it, a POD is copied,
  and for another type there has to be a \<^verbatim>\<open>serialize\<close> whose own calls compile. An array of class
  objects has none: its elements' \<^verbatim>\<open>serialize\<close> does not take the array.
\<close>

fun write_instance :: "ctype \<Rightarrow> bool"
  and write_body :: "body \<Rightarrow> bool"
  and write_call :: "call \<Rightarrow> bool"
  and write_calls :: "call list \<Rightarrow> bool"
  and write_alts :: "alts \<Rightarrow> bool" where
  "write_instance (Arithmetic n) = True"
| "write_instance (Enumeration n) = True"
| "write_instance Pointer = False"
| "write_instance (ArrayOf t n) = (is_serializable t \<and> is_pod t)"
| "write_instance (Class pod triv n marked f) =
     (is_serializable (Class pod triv n marked f) \<and> (pod \<or> (case f of None \<Rightarrow> False | Some b \<Rightarrow> write_body b)))"
| "write_body (Calls cs) = write_calls cs"
| "write_body (Switch n as) = write_alts as"
| "write_call (Item t) = write_instance t"
| "write_call (Items t n) = (is_serializable t \<and> (is_pod t \<or> write_instance t))"
| "write_call Descriptor = True"
| "write_calls [] = True"
| "write_calls (c # cs) = (write_call c \<and> write_calls cs)"
| "write_alts NoAlt = True"
| "write_alts (Alt t cs as) = (write_calls cs \<and> write_alts as)"

text \<open>
  The code \<^verbatim>\<open>Deserializer::read\<close> of the type runs, if it compiles. \<^verbatim>\<open>pop\<close> returns the object, so there is
  none for an array type, which a function cannot return; the array overload of \<^verbatim>\<open>pop\<close> for elements
  that are not PODs calls an overload that does not exist; and the overload for other classes declares a union
  with a member of the class, whose own constructor is deleted unless that of the class is trivial.
\<close>

fun read_instance :: "ctype \<Rightarrow> shape option"
  and read_body :: "body \<Rightarrow> shape option"
  and read_call :: "call \<Rightarrow> ract option"
  and read_calls :: "call list \<Rightarrow> ract list option"
  and read_alts :: "alts \<Rightarrow> cases option" where
  "read_instance (Arithmetic n) = Some (PodOf n)"
| "read_instance (Enumeration n) = Some (PodOf n)"
| "read_instance Pointer = None"
| "read_instance (ArrayOf t n) = None"
| "read_instance (Class pod triv n marked f) =
     (if \<not> is_serializable (Class pod triv n marked f) then None
      else if pod then Some (PodOf n) else if \<not> triv then None
      else case f of None \<Rightarrow> None | Some b \<Rightarrow> read_body b)"
| "read_body (Calls cs) = map_option ObjOf (read_calls cs)"
| "read_body (Switch n as) = map_option (TaggedOf n) (read_alts as)"
| "read_call (Item t) = map_option Read (read_instance t)"
| "read_call (Items t n) = (if is_serializable t \<and> is_pod t then Some (ReadPodArray n (sizeof t)) else None)"
| "read_call Descriptor = Some ReadFd"
| "read_calls [] = Some []"
| "read_calls (c # cs) =
     (case read_call c of None \<Rightarrow> None | Some r \<Rightarrow> map_option ((#) r) (read_calls cs))"
| "read_alts NoAlt = Some NoCase"
| "read_alts (Alt t cs as) =
     (case read_calls cs of None \<Rightarrow> None | Some rs \<Rightarrow> map_option (Case t rs) (read_alts as))"

section \<open>Values of a type\<close>

text \<open>
  The objects of a type as the serializer sees them: a POD by its representation, an object of another
  class by the calls its \<^verbatim>\<open>serialize\<close> makes.
\<close>

definition pod_of :: "nat \<Rightarrow> val \<Rightarrow> bool" where
  "pod_of n v = (case v of Pod bs \<Rightarrow> length bs = n | Obj as \<Rightarrow> False)"

fun typed :: "ctype \<Rightarrow> val \<Rightarrow> bool"
  and typed_body :: "body \<Rightarrow> act list \<Rightarrow> bool"
  and typed_call :: "call \<Rightarrow> act \<Rightarrow> bool"
  and typed_calls :: "call list \<Rightarrow> act list \<Rightarrow> bool"
  and typed_alts :: "alts \<Rightarrow> byte list \<Rightarrow> act list \<Rightarrow> bool" where
  "typed (Arithmetic n) v = pod_of n v"
| "typed (Enumeration n) v = pod_of n v"
| "typed Pointer v = pod_of 8 v"
| "typed (ArrayOf t n) v = (is_pod t \<and> pod_of (n * sizeof t) v)"
| "typed (Class pod triv n marked f) v =
     (if pod then pod_of n v
      else case v of Pod bs \<Rightarrow> False
        | Obj as \<Rightarrow> (case f of None \<Rightarrow> False | Some b \<Rightarrow> typed_body b as))"
| "typed_body (Calls cs) as = typed_calls cs as"
| "typed_body (Switch n alts) as =
     (case as of Write (Pod t) # as' \<Rightarrow> length t = n \<and> typed_alts alts t as' | _ \<Rightarrow> False)"
| "typed_call (Item t) a = (case a of Write v \<Rightarrow> typed t v | _ \<Rightarrow> False)"
| "typed_call (Items t n) a =
     (case a of WritePodArray xs \<Rightarrow> is_pod t \<and> length xs = n \<and> (\<forall>x\<in>set xs. length x = sizeof t)
      | WriteArray vs \<Rightarrow> \<not> is_pod t \<and> length vs = n \<and> (\<forall>v\<in>set vs. typed t v)
      | _ \<Rightarrow> False)"
| "typed_call Descriptor a = (case a of WriteFd fd \<Rightarrow> True | _ \<Rightarrow> False)"
| "typed_calls [] as = (as = [])"
| "typed_calls (c # cs) as = (case as of [] \<Rightarrow> False | a # as' \<Rightarrow> typed_call c a \<and> typed_calls cs as')"
| "typed_alts NoAlt t as = False"
| "typed_alts (Alt c cs alts) t as = (if t = c then typed_calls cs as else typed_alts alts t as)"

section \<open>Reading a shape\<close>

text \<open>The values a reader of a shape can return.\<close>

fun has_shape :: "shape \<Rightarrow> val \<Rightarrow> bool"
  and has_act :: "ract \<Rightarrow> act \<Rightarrow> bool"
  and has_acts :: "ract list \<Rightarrow> act list \<Rightarrow> bool"
  and has_case :: "cases \<Rightarrow> byte list \<Rightarrow> act list \<Rightarrow> bool" where
  "has_shape (PodOf n) v = pod_of n v"
| "has_shape (ObjOf rs) v = (case v of Pod bs \<Rightarrow> False | Obj as \<Rightarrow> has_acts rs as)"
| "has_shape (TaggedOf n cs) v =
     (case v of Obj (Write (Pod t) # as) \<Rightarrow> length t = n \<and> has_case cs t as | _ \<Rightarrow> False)"
| "has_act (Read sh) a = (case a of Write v \<Rightarrow> has_shape sh v | _ \<Rightarrow> False)"
| "has_act (ReadPodArray n sz) a =
     (case a of WritePodArray xs \<Rightarrow> length xs = n \<and> (\<forall>x\<in>set xs. length x = sz) | _ \<Rightarrow> False)"
| "has_act ReadFd a = (case a of WriteFd fd \<Rightarrow> True | _ \<Rightarrow> False)"
| "has_acts [] as = (as = [])"
| "has_acts (r # rs) as = (case as of [] \<Rightarrow> False | a # as' \<Rightarrow> has_act r a \<and> has_acts rs as')"
| "has_case NoCase t as = False"
| "has_case (Case c rs cs) t as = (if t = c then has_acts rs as else has_case cs t as)"

lemma before_Nil: "before bs fs d \<Longrightarrow> before [] [] d"
  using before_prefix [of "[]" bs "[]" fs d] by simp

lemma drop_append_iff: "drop (n + length bs) xs = cs @ r \<Longrightarrow> drop n xs = bs @ q \<Longrightarrow> drop n xs = bs @ cs @ r"
  by (metis add.commute append_eq_conv_conj drop_drop)

lemma before_append:
  "before (bs @ cs) (fs @ gs) d \<longleftrightarrow> before bs fs d \<and> before cs gs (advance (length bs) (length fs) d)"
  (is "?l = ?r")
proof
  assume ?r
  note l = before_lengths [OF conjunct1 [OF \<open>?r\<close>]]
  have "unat (dz_byteOffset d + of_nat (length bs)) = unat (dz_byteOffset d) + length bs"
    "unat (dz_fdOffset d + of_nat (length fs)) = unat (dz_fdOffset d) + length fs"
    using l \<open>?r\<close> by (simp_all add: before_def unat_add_no_wrap)
  with \<open>?r\<close> show ?l
    by (auto simp: before_def advance_def dest: drop_append_iff)
qed (auto intro: before_prefix before_advance)

lemma before_bytes_append: "before (bs @ cs) fs d \<longleftrightarrow> before bs [] d \<and> before cs fs (advance (length bs) 0 d)"
  using before_append [of bs cs "[]" fs] by simp

lemma pop_raw_iff:
  assumes "before [] [] d"
  shows "pop_raw n d = Ret (bs, d') \<longleftrightarrow> length bs = n \<and> before bs [] d \<and> d' = advance n 0 d" (is "?l = ?r")
proof
  assume ?r
  then show ?l using pop_raw_before [of bs "[]" d] by auto
next
  assume ?l
  moreover have "drop k xs = take n (drop k xs) @ drop n (drop k xs)" for k and xs :: "byte list"
    by (rule append_take_drop_id [symmetric])
  ultimately have "length bs = n \<and> (\<exists>r. drop (unat (dz_byteOffset d)) (ar_data (dz_archive d)) = bs @ r)"
    by (auto simp only: pop_raw_def outcome.inject prod.inject length_take length_drop split: if_splits)
  with \<open>?l\<close> assms show ?r
    by (auto simp: pop_raw_def before_def advance_def split: if_splits)
qed

lemma readFd_iff:
  assumes "before [] [] d"
  shows "readFd d = (Ret fd, d') \<longleftrightarrow> before [] [fd] d \<and> d' = advance 0 1 d" (is "?l = ?r")
proof
  assume ?r
  then show ?l using readFd_before [of "[]" fd d] by simp
next
  assume ?l
  then have "drop (unat (dz_fdOffset d)) (ar_fds (dz_archive d)) =
      fd # drop (Suc (unat (dz_fdOffset d))) (ar_fds (dz_archive d))"
    by (auto simp: readFd_def Let_def Cons_nth_drop_Suc split: if_splits)
  with \<open>?l\<close> assms show ?r
    by (auto simp: readFd_def before_def advance_def Let_def split: if_splits)
qed

lemma split_elems_of:
  "length bs = n * sz \<Longrightarrow> concat (split_elems n sz bs) = bs
     \<and> length (split_elems n sz bs) = n \<and> (\<forall>x\<in>set (split_elems n sz bs). length x = sz)"
proof (induction n arbitrary: bs)
  case (Suc n)
  have "length (drop sz bs) = n * sz" "length (take sz bs) = sz"
    using Suc.prems by simp_all
  note len = this
  let ?r = "split_elems n sz (drop sz bs)"
  have "concat ?r = drop sz bs" and "length ?r = n" and "\<forall>x\<in>set ?r. length x = sz"
    using Suc.IH [OF len(1)] by blast+
  moreover have "split_elems (Suc n) sz bs = take sz bs # ?r"
    by simp
  ultimately show ?case
    using len(2) by (simp only: concat.simps append_take_drop_id list.size set_simps ball_simps simp_thms) simp
qed simp

lemma before_after: "before bs fs d \<Longrightarrow> before [] [] (advance (length bs) (length fs) d)"
  using before_append [of bs "[]" fs "[]" d] by simp

lemma read_pod_array_iff:
  assumes "before [] [] d"
  shows "read_act (ReadPodArray n sz) d = Ret (a, d') \<longleftrightarrow> has_act (ReadPodArray n sz) a
    \<and> before (flat_act a) (fds_act a) d \<and> d' = advance (length (flat_act a)) (length (fds_act a)) d" (is "?l = ?r")
proof
  assume ?l
  then obtain bs where "a = WritePodArray (split_elems n sz bs)" "pop_raw (n * sz) d = Ret (bs, d')"
    by (auto simp: and_then_Ret_iff)
  moreover from this have "length bs = n * sz \<and> before bs [] d \<and> d' = advance (n * sz) 0 d"
    using pop_raw_iff [OF assms] by blast
  ultimately show ?r using split_elems_of [of bs n sz] by simp
next
  assume ?r
  then obtain xs where xs: "a = WritePodArray xs" "length xs = n" "\<forall>x\<in>set xs. length x = sz"
    by (auto split: act.splits)
  then have "length (concat xs) = n * sz"
    by (metis length_concat_uniform)
  moreover have "split_elems n sz (concat xs) = xs"
    using concat_split [OF xs(3), of "[]"] xs(2) by simp
  ultimately show ?l
    using \<open>?r\<close> xs pop_raw_iff [OF assms] by (auto simp: and_then_Ret_iff)
qed

text \<open>
  A reader within its archive returns a value exactly when the value has the shape and its bytes and
  descriptors come next; the reader then stands behind them.
\<close>

lemma pop_iff:
  "before [] [] d \<Longrightarrow> pop sh d = Ret (w, d') \<longleftrightarrow>
     has_shape sh w \<and> before (flat w) (fds w) d \<and> d' = advance (length (flat w)) (length (fds w)) d"
  "before [] [] d \<Longrightarrow> read_act r d = Ret (a, d') \<longleftrightarrow>
     has_act r a \<and> before (flat_act a) (fds_act a) d \<and> d' = advance (length (flat_act a)) (length (fds_act a)) d"
  "before [] [] d \<Longrightarrow> read_all rs d = Ret (as, d') \<longleftrightarrow>
     has_acts rs as \<and> before (flat_acts as) (fds_acts as) d
       \<and> d' = advance (length (flat_acts as)) (length (fds_acts as)) d"
  "before [] [] d \<Longrightarrow> read_case cs t d = Ret (as, d') \<longleftrightarrow>
     has_case cs t as \<and> before (flat_acts as) (fds_acts as) d
       \<and> d' = advance (length (flat_acts as)) (length (fds_acts as)) d"
proof (induction sh d and r d and rs d and cs t d arbitrary: w d' and a d' and as d' and as d'
    rule: pop_read_act_read_all_read_case.induct)
  case (1 n d)
  then show ?case by (auto simp: and_then_Ret_iff pop_raw_iff pod_of_def split: val.splits)
next
  case (5 n sz d)
  then show ?case by (rule read_pod_array_iff)
next
  case (6 d)
  have "readFd d = (Ret fd, e) \<longleftrightarrow> before [] [fd] d \<and> e = advance 0 1 d" for fd e
    using 6 by (rule readFd_iff)
  moreover have "read_act ReadFd d = Ret (a, d') \<longleftrightarrow> (\<exists>fd. readFd d = (Ret fd, d') \<and> a = WriteFd fd)"
    by (auto simp: and_then_Ret_iff split: prod.splits)
  ultimately show ?case by (auto split: act.splits)
next
  case (3 n cs d)
  have "pop (TaggedOf n cs) d = Ret (w, d') \<longleftrightarrow>
      (\<exists>t e as. pop_raw n d = Ret (t, e) \<and> read_case cs t e = Ret (as, d') \<and> w = Obj (Write (Pod t) # as))"
    by (auto simp: and_then_Ret_iff)
  also have "\<dots> \<longleftrightarrow> (\<exists>t as. length t = n \<and> before t [] d \<and> read_case cs t (advance (length t) 0 d) = Ret (as, d')
      \<and> w = Obj (Write (Pod t) # as))"
    using 3(2) by (auto simp: pop_raw_iff)
  also have "\<dots> \<longleftrightarrow> (\<exists>t as. length t = n \<and> before t [] d \<and> has_case cs t as
      \<and> before (flat_acts as) (fds_acts as) (advance (length t) 0 d)
      \<and> d' = advance (length t + length (flat_acts as)) (length (fds_acts as)) d \<and> w = Obj (Write (Pod t) # as))"
    using 3(1) before_after [of _ "[]" d] by (auto simp: advance_advance)
  also have "\<dots> \<longleftrightarrow> has_shape (TaggedOf n cs) w \<and> before (flat w) (fds w) d
      \<and> d' = advance (length (flat w)) (length (fds w)) d"
    by (auto simp: before_bytes_append split: val.splits list.splits act.splits)
  finally show ?case .
next
  case (8 r rs d)
  have rest: "before (flat_act b) (fds_act b) d
      \<and> read_all rs (advance (length (flat_act b)) (length (fds_act b)) d) = Ret (bs, d')
    \<longleftrightarrow> has_acts rs bs \<and> before (flat_act b @ flat_acts bs) (fds_act b @ fds_acts bs) d
      \<and> d' = advance (length (flat_act b) + length (flat_acts bs)) (length (fds_act b) + length (fds_acts bs)) d" for b bs
    using 8(2) [OF before_after] by (auto simp only: advance_advance before_append)
  have "read_all (r # rs) d = Ret (as, d') \<longleftrightarrow>
      (\<exists>b e bs. read_act r d = Ret (b, e) \<and> read_all rs e = Ret (bs, d') \<and> as = b # bs)"
    by (rule read_all_Cons_Ret)
  also have "\<dots> \<longleftrightarrow> (\<exists>b bs. has_act r b \<and> (before (flat_act b) (fds_act b) d
      \<and> read_all rs (advance (length (flat_act b)) (length (fds_act b)) d) = Ret (bs, d')) \<and> as = b # bs)"
    unfolding 8(1) [OF 8(3)] by blast
  also have "\<dots> \<longleftrightarrow> (\<exists>b bs. has_act r b \<and> (has_acts rs bs \<and> before (flat_act b @ flat_acts bs) (fds_act b @ fds_acts bs) d
      \<and> d' = advance (length (flat_act b) + length (flat_acts bs)) (length (fds_act b) + length (fds_acts bs)) d)
      \<and> as = b # bs)"
    unfolding rest ..
  also have "\<dots> \<longleftrightarrow> has_acts (r # rs) as \<and> before (flat_acts as) (fds_acts as) d
      \<and> d' = advance (length (flat_acts as)) (length (fds_acts as)) d"
    by (auto split: list.splits)
  finally show ?case .
qed (auto simp: and_then_Ret_iff split: val.splits act.splits list.splits)

section \<open>Reading a type\<close>

lemma read_body_no_pod: "read_body b = Some sh \<Longrightarrow> \<not> has_shape sh (Pod bs)"
  by (cases b) auto

lemma read_instance_typed:
  "read_instance t = Some sh \<Longrightarrow> typed t v = has_shape sh v"
  "read_body b = Some sh \<Longrightarrow> typed_body b as = has_shape sh (Obj as)"
  "read_call c = Some r \<Longrightarrow> typed_call c a = has_act r a"
  "read_calls cs = Some rs \<Longrightarrow> typed_calls cs as = has_acts rs as"
  "read_alts l = Some k \<Longrightarrow> typed_alts l tg as = has_case k tg as"
proof (induction t and b and c and cs and l arbitrary: sh v and sh as and r a and rs as and k tg as
    rule: read_instance_read_body_read_call_read_calls_read_alts.induct)
qed (auto dest: read_body_no_pod split: if_splits option.splits val.splits act.splits list.splits)

lemma before_start:
  "length (ar_data a) < 2 ^ 64 \<Longrightarrow> length (ar_fds a) < 2 ^ 64 \<Longrightarrow>
     unat bo \<le> length (ar_data a) \<Longrightarrow> unat fo \<le> length (ar_fds a) \<Longrightarrow>
     before bs fs (Deserializer_new bo fo a) \<longleftrightarrow> prefix bs (drop (unat bo) (ar_data a)) \<and> prefix fs (drop (unat fo) (ar_fds a))"
  by (simp add: before_def Deserializer_new_def prefix_def)

lemma deserialize_typed:
  assumes "read_instance t = Some sh" and "length (ar_data a) < 2 ^ 64" and "length (ar_fds a) < 2 ^ 64"
    and "unat bo \<le> length (ar_data a)" and "unat fo \<le> length (ar_fds a)"
  shows "deserialize_archive bo fo sh a = Ret w \<longleftrightarrow>
    typed t w \<and> prefix (flat w) (drop (unat bo) (ar_data a)) \<and> prefix (fds w) (drop (unat fo) (ar_fds a))"
proof -
  note start = before_start [OF assms(2-5)]
  have "before [] [] (Deserializer_new bo fo a)" by (simp add: start)
  then show ?thesis
    using pop_iff(1) [of "Deserializer_new bo fo a" sh w] read_instance_typed(1) [OF assms(1)]
    by (auto simp: deserialize_archive_def and_then_Ret_iff start)
qed

text \<open>From offsets beyond the archive nothing can be read that has bytes, or descriptors.\<close>

lemma pop_outside:
  "length (ar_data (dz_archive d)) < unat (dz_byteOffset d) \<Longrightarrow> pop sh d = Ret (w, d') \<Longrightarrow>
     flat w = [] \<and> dz_archive d' = dz_archive d \<and> dz_byteOffset d' = dz_byteOffset d"
  "length (ar_data (dz_archive d)) < unat (dz_byteOffset d) \<Longrightarrow> read_act r d = Ret (a, d') \<Longrightarrow>
     flat_act a = [] \<and> dz_archive d' = dz_archive d \<and> dz_byteOffset d' = dz_byteOffset d"
  "length (ar_data (dz_archive d)) < unat (dz_byteOffset d) \<Longrightarrow> read_all rs d = Ret (as, d') \<Longrightarrow>
     flat_acts as = [] \<and> dz_archive d' = dz_archive d \<and> dz_byteOffset d' = dz_byteOffset d"
  "length (ar_data (dz_archive d)) < unat (dz_byteOffset d) \<Longrightarrow> read_case cs t d = Ret (as, d') \<Longrightarrow>
     flat_acts as = [] \<and> dz_archive d' = dz_archive d \<and> dz_byteOffset d' = dz_byteOffset d"
proof (induction sh d and r d and rs d and cs t d arbitrary: w d' and a d' and as d' and as d'
    rule: pop_read_act_read_all_read_case.induct)
  case (8 r rs d)
  from 8(4) obtain b e bs where b: "read_act r d = Ret (b, e)" "read_all rs e = Ret (bs, d')" "as = b # bs"
    unfolding read_all_Cons_Ret by blast
  from 8(1) [OF 8(3) b(1)] 8(2) [OF _ b(2)] 8(3) b(3) show ?case by simp
next
  case (2 rs d)
  from 2(3) obtain as where as: "read_all rs d = Ret (as, d')" "w = Obj as" by (auto simp: and_then_Ret_iff)
  from 2(1) [OF 2(2) as(1)] as(2) show ?case by simp
next
  case (3 n cs d)
  from 3(2,3) show ?case by (simp add: pop_raw_def)
next
  case (4 sh d)
  from 4(3) obtain v where v: "pop sh d = Ret (v, d')" "a = Write v" by (auto simp: and_then_Ret_iff)
  from 4(1) [OF 4(2) v(1)] v(2) show ?case by simp
next
  case (6 d)
  from 6(2) show ?case by (auto simp: readFd_def Let_def split: if_splits)
next
  case (10 c rs cs t d)
  show ?case
    by (cases "t = c") (use 10(1) [OF _ 10(3)] 10(2) [OF _ 10(3)] 10(4) in simp_all)
qed (simp_all add: pop_raw_def)

lemma pop_raw_fds: "pop_raw n d = Ret (bs, d') \<Longrightarrow> dz_archive d' = dz_archive d \<and> dz_fdOffset d' = dz_fdOffset d"
  by (auto simp: pop_raw_def split: if_splits)

lemma pop_no_fds:
  "length (ar_fds (dz_archive d)) \<le> unat (dz_fdOffset d) \<Longrightarrow> pop sh d = Ret (w, d') \<Longrightarrow>
     fds w = [] \<and> dz_archive d' = dz_archive d \<and> dz_fdOffset d' = dz_fdOffset d"
  "length (ar_fds (dz_archive d)) \<le> unat (dz_fdOffset d) \<Longrightarrow> read_act r d = Ret (a, d') \<Longrightarrow>
     fds_act a = [] \<and> dz_archive d' = dz_archive d \<and> dz_fdOffset d' = dz_fdOffset d"
  "length (ar_fds (dz_archive d)) \<le> unat (dz_fdOffset d) \<Longrightarrow> read_all rs d = Ret (as, d') \<Longrightarrow>
     fds_acts as = [] \<and> dz_archive d' = dz_archive d \<and> dz_fdOffset d' = dz_fdOffset d"
  "length (ar_fds (dz_archive d)) \<le> unat (dz_fdOffset d) \<Longrightarrow> read_case cs t d = Ret (as, d') \<Longrightarrow>
     fds_acts as = [] \<and> dz_archive d' = dz_archive d \<and> dz_fdOffset d' = dz_fdOffset d"
proof (induction sh d and r d and rs d and cs t d arbitrary: w d' and a d' and as d' and as d'
    rule: pop_read_act_read_all_read_case.induct)
  case (3 n cs d)
  from 3(3) obtain t e as where t: "pop_raw n d = Ret (t, e)" "read_case cs t e = Ret (as, d')" "w = Obj (Write (Pod t) # as)"
    by (auto simp: and_then_Ret_iff)
  from 3(1) [OF _ t(2)] pop_raw_fds [OF t(1)] 3(2) t(3) show ?case by simp
next
  case (8 r rs d)
  from 8(4) obtain b e bs where b: "read_act r d = Ret (b, e)" "read_all rs e = Ret (bs, d')" "as = b # bs"
    unfolding read_all_Cons_Ret by blast
  from 8(1) [OF 8(3) b(1)] 8(2) [OF _ b(2)] 8(3) b(3) show ?case by simp
next
  case (1 n d)
  from 1(2) show ?case by (auto simp: and_then_Ret_iff dest: pop_raw_fds)
next
  case (2 rs d)
  from 2(3) obtain as where as: "read_all rs d = Ret (as, d')" "w = Obj as" by (auto simp: and_then_Ret_iff)
  from 2(1) [OF 2(2) as(1)] as(2) show ?case by simp
next
  case (4 sh d)
  from 4(3) obtain v where v: "pop sh d = Ret (v, d')" "a = Write v" by (auto simp: and_then_Ret_iff)
  from 4(1) [OF 4(2) v(1)] v(2) show ?case by simp
next
  case (5 n sz d)
  from 5(2) show ?case by (auto simp: and_then_Ret_iff dest: pop_raw_fds)
next
  case (6 d)
  from 6 show ?case by (simp add: readFd_def Let_def)
next
  case (10 c rs cs t d)
  show ?case
    by (cases "t = c") (use 10(1) [OF _ 10(3)] 10(2) [OF _ 10(3)] 10(4) in simp_all)
qed simp_all

text \<open>
  C11. What deserialising means for types, with the two offsets \<open>bo\<close> and \<open>fo\<close> that the constructor of
  \<^verbatim>\<open>Deserializer\<close> leaves uninitialised: if they happen to lie within the archive, an archive written from any
  value can be read as a type \<open>t\<close> that \<^verbatim>\<open>read\<close> compiles for exactly when some value of \<open>t\<close> has its bytes and
  descriptors at these offsets, and then the reader returns just that value; beyond the archive nothing that
  has bytes, or descriptors, is ever returned. So a value comes back as its own type if the memory happened
  to hold zeros, every result has the type it was read as, and a type is compatible with what was written only
  in this sense (no type or length is checked).
\<close>

theorem typed_exchange:
  assumes "read_instance t = Some sh" and "length (flat v) < 2 ^ 64" and "2 * length (fds v) < 2 ^ 64"
    and "\<forall>n. length (block n) = n"
  shows "(unat bo \<le> length (flat v) \<longrightarrow> unat fo \<le> 2 * length (fds v) \<longrightarrow>
      (and_then (serialize_archive block v) (deserialize_archive bo fo sh) = Ret w \<longleftrightarrow>
        typed t w \<and> prefix (flat w) (drop (unat bo) (flat v)) \<and> prefix (fds w) (drop (unat fo) (fds v @ fds v))))
    \<and> (length (flat v) < unat bo \<longrightarrow> flat w \<noteq> [] \<longrightarrow>
        and_then (serialize_archive block v) (deserialize_archive bo fo sh) \<noteq> Ret w)
    \<and> (2 * length (fds v) < unat fo \<longrightarrow> fds w \<noteq> [] \<longrightarrow>
        and_then (serialize_archive block v) (deserialize_archive bo fo sh) \<noteq> Ret w)"
proof -
  let ?a = "\<lparr>ar_data = flat v, ar_length = of_nat (length (flat v)), ar_fds = fds v @ fds v\<rparr>"
  have ser: "serialize_archive block v = Ret ?a" using serialize_exact_lemma [OF assms(2,4)] .
  have "deserialize_archive bo fo sh ?a \<noteq> Ret w" if "length (flat v) < unat bo" "flat w \<noteq> []"
    using that pop_outside(1) [of "Deserializer_new bo fo ?a" sh w]
    by (auto simp: deserialize_archive_def and_then_Ret_iff Deserializer_new_def)
  moreover have "deserialize_archive bo fo sh ?a \<noteq> Ret w" if "2 * length (fds v) < unat fo" "fds w \<noteq> []"
    using that pop_no_fds(1) [of "Deserializer_new bo fo ?a" sh w]
    by (auto simp: deserialize_archive_def and_then_Ret_iff Deserializer_new_def)
  ultimately show ?thesis
    using deserialize_typed [OF assms(1), of ?a bo fo w] assms(2,3) by (simp add: ser)
qed

text \<open>
  The address types of \<^verbatim>\<open>include/IPAddress.hpp\<close>: two marked PODs, and a class with a \<^verbatim>\<open>switch\<close> and without a
  default constructor.
\<close>

definition in_addr_type :: ctype where
  "in_addr_type = Class True True 4 True None"

definition in6_addr_type :: ctype where
  "in6_addr_type = Class True True 16 True None"

definition IPAddress_type :: ctype where
  "IPAddress_type = Class False False 20 False (Some (Switch (sizeof (Enumeration 4))
     (Alt (bytes_of_u32 (family_value IPv4)) [Item in_addr_type]
     (Alt (bytes_of_u32 (family_value IPv6)) [Item in6_addr_type] NoAlt))))"

text \<open>
  An address is written; at offset 0 its family can be read, at offset 4 the native address, but no \<^verbatim>\<open>in6_addr\<close>,
  and no address as a whole.
\<close>

theorem typed_exchange_witness:
  "let a = serialize_archive (\<lambda>n. replicate n 0) (IPAddress_serialize (IPAddress_in (replicate 16 7) [127, 0, 0, 1]))
   in and_then a (deserialize_archive 0 0 (PodOf 4)) = Ret (Pod [2, 0, 0, 0])
      \<and> and_then a (deserialize_archive 4 0 (PodOf 4)) = Ret (Pod [127, 0, 0, 1])
      \<and> (\<forall>w. and_then a (deserialize_archive 0 0 (PodOf 16)) \<noteq> Ret w)
      \<and> and_then a (deserialize_archive 99 0 (PodOf 4)) \<noteq> Ret (Pod [2, 0, 0, 0])
      \<and> write_instance IPAddress_type \<and> read_instance IPAddress_type = None"
proof -
  let ?v = "IPAddress_serialize (IPAddress_in (replicate 16 7) [127, 0, 0, 1])" and ?b = "\<lambda>n. replicate n (0 :: byte)"
  have v: "?v = Obj [Write (Pod [2, 0, 0, 0]), Write (Pod [127, 0, 0, 1])]"
    by (simp add: IPAddress_serialize_def IPAddress_in_def ip_in_def memcpy_def bytes_of_u32_def)
  have "read_instance in_addr_type = Some (PodOf 4)" "read_instance in6_addr_type = Some (PodOf 16)"
    by (simp_all add: in_addr_type_def in6_addr_type_def)
  note at = typed_exchange [of "Enumeration 4" "PodOf 4" ?v ?b] typed_exchange [OF this(1), of ?v ?b]
    typed_exchange [OF this(2), of ?v ?b]
  have "and_then (serialize_archive ?b ?v) (deserialize_archive 0 0 (PodOf 4)) = Ret (Pod [2, 0, 0, 0])"
    using at(1) [of 0 0 "Pod [2, 0, 0, 0]"] by (simp add: v pod_of_def)
  moreover have "and_then (serialize_archive ?b ?v) (deserialize_archive 4 0 (PodOf 4)) = Ret (Pod [127, 0, 0, 1])"
    using at(2) [of 4 0 "Pod [127, 0, 0, 1]"] by (simp add: v pod_of_def in_addr_type_def)
  moreover have "and_then (serialize_archive ?b ?v) (deserialize_archive 0 0 (PodOf 16)) \<noteq> Ret w" for w
    using at(3) [of 0 0 w] by (auto simp: v pod_of_def in6_addr_type_def split: val.splits dest: prefix_length_le)
  moreover have "and_then (serialize_archive ?b ?v) (deserialize_archive 99 0 (PodOf 4)) \<noteq> Ret (Pod [2, 0, 0, 0])"
    using at(1) [of 99 0 "Pod [2, 0, 0, 0]"] by (simp add: v)
  ultimately show ?thesis
    by (simp add: Let_def IPAddress_type_def in_addr_type_def in6_addr_type_def IsComplexSerializable_def)
qed

section \<open>Reading an address\<close>

lemma pop_raw_length: "pop_raw n d = Ret (bs, d') \<Longrightarrow> length bs = n"
  by (auto simp: pop_raw_def split: if_splits)

lemma bytes_of_u32_eq_iff: "length f = 4 \<Longrightarrow> f = bytes_of_u32 w \<longleftrightarrow> u32_of_bytes f = w"
  using length_eq_4_iff [of f] by (auto simp: bytes_of_u32_of_bytes u32_of_bytes_exact)

lemma IPAddress_serialize_read:
  "length junk = 16 \<Longrightarrow> length a = 4 \<Longrightarrow>
     IPAddress_serialize (IPAddress_in junk a) = Obj [Write (Pod (bytes_of_u32 (family_value IPv4))), Write (Pod a)]"
  "IPAddress_serialize (IPAddress_in6 a) = Obj [Write (Pod (bytes_of_u32 (family_value IPv6))), Write (Pod a)]"
  by (simp_all add: IPAddress_serialize_def IPAddress_in_def IPAddress_in6_def ip_in_def ip_in6_def memcpy_def)

text \<open>The three ways in which \<^verbatim>\<open>deserialize\<close> returns.\<close>

lemma IPAddress_deserialize_Ret:
  assumes "before [] [] d"
  shows "IPAddress_deserialize junk d = Ret (r, d') \<longleftrightarrow>
    (\<exists>f. length f = 4 \<and> before f [] d \<and>
      (if u32_of_bytes f = family_value IPv4 then
         \<exists>a. length a = 4 \<and> before (f @ a) [] d \<and> r = Some (IPAddress_in junk a) \<and> d' = advance 8 0 d
       else if u32_of_bytes f = family_value IPv6 then
         \<exists>a. length a = 16 \<and> before (f @ a) [] d \<and> r = Some (IPAddress_in6 a) \<and> d' = advance 20 0 d
       else r = None \<and> d' = advance 4 0 d))"
proof -
  have next_read: "pop_raw n (advance 4 0 d) = Ret (a, e) \<longleftrightarrow> length a = n \<and> before (f @ a) [] d \<and> e = advance (4 + n) 0 d"
    if "length f = 4" "before f [] d" for f n a e
  proof -
    have "before [] [] (advance 4 0 d)" using before_after [OF that(2)] that(1) by simp
    from pop_raw_iff [OF this, of n a e] before_append [of f a "[]" "[]" d] that show ?thesis
      by (simp add: advance_advance)
  qed
  have "IPAddress_deserialize junk d = Ret (r, d') \<longleftrightarrow>
    (\<exists>f. (length f = 4 \<and> before f [] d) \<and>
      (if u32_of_bytes f = family_value IPv4 then and_then (pop_raw 4 (advance 4 0 d)) (\<lambda>(a, d2). Ret (Some (IPAddress_in junk a), d2))
       else if u32_of_bytes f = family_value IPv6 then and_then (pop_raw 16 (advance 4 0 d)) (\<lambda>(a, d2). Ret (Some (IPAddress_in6 a), d2))
       else Ret (None, advance 4 0 d)) = Ret (r, d'))"
    unfolding IPAddress_deserialize_def and_then_Ret_iff by (simp add: pop_raw_iff [OF assms])
  also have "\<dots> \<longleftrightarrow> (\<exists>f. (length f = 4 \<and> before f [] d) \<and>
      (if u32_of_bytes f = family_value IPv4 then
         \<exists>a. length a = 4 \<and> before (f @ a) [] d \<and> r = Some (IPAddress_in junk a) \<and> d' = advance 8 0 d
       else if u32_of_bytes f = family_value IPv6 then
         \<exists>a. length a = 16 \<and> before (f @ a) [] d \<and> r = Some (IPAddress_in6 a) \<and> d' = advance 20 0 d
       else r = None \<and> d' = advance 4 0 d))"
    by (intro arg_cong [where f = Ex] ext conj_cong refl) (auto simp: and_then_Ret_iff next_read)
  finally show ?thesis by (simp only: conj_assoc)
qed

text \<open>
  C12. \<^verbatim>\<open>deserialize\<close> of \<^verbatim>\<open>IPAddress\<close> inverts \<^verbatim>\<open>serialize\<close> wherever in an archive the reader stands and
  whatever follows: it reads back an equal address from the bytes that \<^verbatim>\<open>serialize\<close> writes and moves just behind
  them, every address it constructs is one whose bytes it has read, and it leaves the memory of the result alone
  exactly if the next four bytes are neither of the two families.
\<close>

theorem IPAddress_read_back:
  assumes "length junk = 16" and "before [] [] d"
  shows "(\<forall>ip. wf_ip ip \<longrightarrow> before (flat (IPAddress_serialize ip)) [] d \<longrightarrow>
        (\<exists>ip'. IPAddress_deserialize junk d = Ret (Some ip', advance (length (flat (IPAddress_serialize ip))) 0 d) \<and> ip_eq ip' ip))
    \<and> (\<forall>ip d'. IPAddress_deserialize junk d = Ret (Some ip, d') \<longrightarrow>
        wf_ip ip \<and> before (flat (IPAddress_serialize ip)) [] d \<and> d' = advance (length (flat (IPAddress_serialize ip))) 0 d)
    \<and> (IPAddress_deserialize junk d = Ret (None, d1) \<longleftrightarrow>
        (\<exists>f. length f = 4 \<and> before f [] d \<and> u32_of_bytes f \<notin> {family_value IPv4, family_value IPv6} \<and> d1 = advance 4 0 d))"
proof (intro conjI allI impI)
  fix ip assume ip: "wf_ip ip" "before (flat (IPAddress_serialize ip)) [] d"
  let ?f = "bytes_of_u32 (family_value (ip_family ip))" and ?n = "ip_native ip"
  have b: "before (?f @ ?n) [] d" using ip by (simp add: flat_ip)
  then have f: "before ?f [] d" using before_prefix [of ?f ?n "[]" "[]"] by simp
  have len: "length ?n = native_size ip" "length (flat (IPAddress_serialize ip)) = 4 + native_size ip"
    using ip(1) by (simp_all add: flat_ip length_ip_native)
  have eq: "ip_eq (case ip_family ip of IPv4 \<Rightarrow> IPAddress_in junk ?n | IPv6 \<Rightarrow> IPAddress_in6 ?n) ip"
    using assms(1) ip(1) len(1) by (cases "ip_family ip") (simp_all add: ip_eq_iff wf_intros native_size_def)
  have "IPAddress_deserialize junk d = Ret (Some (case ip_family ip of IPv4 \<Rightarrow> IPAddress_in junk ?n | IPv6 \<Rightarrow> IPAddress_in6 ?n),
      advance (4 + native_size ip) 0 d)"
    unfolding IPAddress_deserialize_Ret [OF assms(2)]
    by (rule exI [of _ ?f]) (use b f len(1) in \<open>cases "ip_family ip"; auto simp: u32_of_bytes_exact native_size_def\<close>)
  with eq show "\<exists>ip'. IPAddress_deserialize junk d = Ret (Some ip', advance (length (flat (IPAddress_serialize ip))) 0 d) \<and> ip_eq ip' ip"
    unfolding len(2) by blast
next
  fix ip d'
  assume "IPAddress_deserialize junk d = Ret (Some ip, d')"
  then show "wf_ip ip" "before (flat (IPAddress_serialize ip)) [] d" "d' = advance (length (flat (IPAddress_serialize ip))) 0 d"
    unfolding IPAddress_deserialize_Ret [OF assms(2)]
    by (auto simp: wf_intros assms(1) flat_ip bytes_of_u32_eq_iff [THEN iffD2, symmetric] split: if_splits)
next
  show "IPAddress_deserialize junk d = Ret (None, d1) \<longleftrightarrow>
      (\<exists>f. length f = 4 \<and> before f [] d \<and> u32_of_bytes f \<notin> {family_value IPv4, family_value IPv6} \<and> d1 = advance 4 0 d)"
    unfolding IPAddress_deserialize_Ret [OF assms(2)] by (auto split: if_splits)
qed

text \<open>A reader that stands at the second byte of an archive, before an address and one more byte; and before an unknown family.\<close>

theorem IPAddress_read_back_witness:
  "let ip = IPAddress_in (replicate 16 0) [127, 0, 0, 1]; other = IPAddress_deserialize (replicate 16 7);
       d = Deserializer_new 1 0 \<lparr>ar_data = [3, 2, 0, 0, 0, 127, 0, 0, 1, 5], ar_length = 10, ar_fds = []\<rparr>;
       u = Deserializer_new 0 0 \<lparr>ar_data = [9, 0, 0, 0, 1], ar_length = 5, ar_fds = []\<rparr>
   in (\<exists>ip'. other d = Ret (Some ip', advance 8 0 d) \<and> ip_eq ip' ip) \<and> other u = Ret (None, advance 4 0 u)"
proof -
  let ?ip = "IPAddress_in (replicate 16 0) [127, 0, 0, 1]"
  let ?d = "Deserializer_new 1 0 \<lparr>ar_data = [3, 2, 0, 0, 0, 127, 0, 0, 1, 5], ar_length = 10, ar_fds = []\<rparr>"
  let ?u = "Deserializer_new 0 0 \<lparr>ar_data = [9, 0, 0, 0, 1], ar_length = 5, ar_fds = []\<rparr>"
  have ip: "wf_ip ?ip" "flat (IPAddress_serialize ?ip) = [2, 0, 0, 0, 127, 0, 0, 1]"
    by (simp_all add: wf_intros IPAddress_serialize_read bytes_of_u32_def)
  have len: "length [2, 0, 0, 0, 127, 0, 0, 1 :: byte] = 8" by simp
  have d: "before [2, 0, 0, 0, 127, 0, 0, 1] [] ?d" "before [] [] ?d" "before [] [] ?u" "before [9, 0, 0, 0] [] ?u"
    by (simp_all add: before_def Deserializer_new_def)
  have "\<exists>ip'. IPAddress_deserialize (replicate 16 7) ?d = Ret (Some ip', advance 8 0 ?d) \<and> ip_eq ip' ?ip"
    using IPAddress_read_back [of "replicate 16 7" ?d, THEN conjunct1, rule_format, OF _ d(2) ip(1)] d(1) unfolding ip(2) len by simp
  moreover have "u32_of_bytes [9, 0, 0, 0] \<notin> {family_value IPv4, family_value IPv6}"
    by (simp add: u32_of_bytes_def)
  with d(4) have "\<exists>f. length f = 4 \<and> before f [] ?u \<and> u32_of_bytes f \<notin> {family_value IPv4, family_value IPv6} \<and> advance 4 0 ?u = advance 4 0 ?u"
    by (intro exI [of _ "[9, 0, 0, 0]"]) simp
  then have "IPAddress_deserialize (replicate 16 7) ?u = Ret (None, advance 4 0 ?u)"
    using IPAddress_read_back [of "replicate 16 7" ?u "advance 4 0 ?u"] d(3) by simp
  ultimately show ?thesis by (simp add: Let_def)
qed

section \<open>The trait and the instances\<close>

lemma instance_chain:
  "read_instance t = Some sh \<Longrightarrow> write_instance t"
  "read_body b = Some sh \<Longrightarrow> write_body b"
  "read_call c = Some r \<Longrightarrow> write_call c"
  "read_calls cs = Some rs \<Longrightarrow> write_calls cs"
  "read_alts l = Some k \<Longrightarrow> write_alts l"
  by (induction t and b and c and cs and l arbitrary: sh and sh and r and rs and k
      rule: read_instance_read_body_read_call_read_calls_read_alts.induct)
    (auto split: if_splits option.splits)

lemma write_serializable: "write_instance t \<Longrightarrow> is_serializable t"
  by (cases t) auto

text \<open>
  For a POD class the object is copied, whatever \<^verbatim>\<open>serialize\<close> and \<^verbatim>\<open>deserialize\<close> the class provides: the
  two are never called.
\<close>

lemma pod_functions_ignored:
  "read_instance (Class True triv n marked (Some b)) = Some (PodOf n)"
  "typed (Class True triv n marked (Some b)) v = pod_of n v"
  by (simp_all add: IsComplexSerializable_def)

end
