(* ===== verification/Packet.thy ===== *)
theory Packet
  imports Exceptions
begin

text \<open>
  \<^verbatim>\<open>Packet\<close> (\<^verbatim>\<open>include/Packet.hpp\<close>, \<^verbatim>\<open>common/Packet.cpp\<close>): an immutable window (offset, length) into a
  shared block of bytes. The window is described by machine words; the lemmas relate it to the list
  of bytes it shows.
\<close>

section \<open>State\<close>

text \<open>
  The \<^verbatim>\<open>shared_ptr<const uint8_t>\<close> of a packet: the block it owns, named by its address, its bytes
  (constant during the life of the packet) and the deleter it was built with.
\<close>

datatype deleter = NullDelete | ArrayDelete

record shared_block =
  blk_addr :: nat
  blk_bytes :: "byte list"
  blk_deleter :: deleter

record packet =
  pk_data :: shared_block
  pk_offset :: "64 word"
  pk_length :: size_t

section \<open>Operations\<close>

definition Packet_new :: "nat \<Rightarrow> byte list \<Rightarrow> 64 word \<Rightarrow> size_t \<Rightarrow> packet" where
  "Packet_new a data offset len =
     \<lparr>pk_data = \<lparr>blk_addr = a, blk_bytes = data, blk_deleter = ArrayDelete\<rparr>,
      pk_offset = offset, pk_length = len\<rparr>"

definition Packet_nocapture :: "nat \<Rightarrow> byte list \<Rightarrow> 64 word \<Rightarrow> size_t \<Rightarrow> packet" where
  "Packet_nocapture a data offset len =
     \<lparr>pk_data = \<lparr>blk_addr = a, blk_bytes = data, blk_deleter = NullDelete\<rparr>,
      pk_offset = offset, pk_length = len\<rparr>"

text \<open>\<^verbatim>\<open>data()\<close> is a pointer; what it points to is the tail of the block from the offset on.\<close>

definition Packet_data :: "packet \<Rightarrow> byte list" where
  "Packet_data p = drop (unat (pk_offset p)) (blk_bytes (pk_data p))"

definition Packet_length :: "packet \<Rightarrow> size_t" where
  "Packet_length p = pk_length p"

definition Packet_skip :: "packet \<Rightarrow> size_t \<Rightarrow> packet" where
  "Packet_skip p bytes =
     (let bytes = (if bytes > pk_length p then pk_length p else bytes)
      in p\<lparr>pk_offset := pk_offset p + bytes, pk_length := pk_length p - bytes\<rparr>)"

definition Packet_truncate :: "packet \<Rightarrow> size_t \<Rightarrow> packet" where
  "Packet_truncate p len =
     (let len = (if len > pk_length p then pk_length p else len)
      in p\<lparr>pk_length := len\<rparr>)"

section \<open>Well-formed packets and the bytes they show\<close>

text \<open>
  The window lies inside the block, and the block is addressable by a non-negative \<^verbatim>\<open>ptrdiff_t\<close>.
\<close>

definition wf_packet :: "packet \<Rightarrow> bool" where
  "wf_packet p \<longleftrightarrow>
     unat (pk_offset p) + unat (pk_length p) \<le> length (blk_bytes (pk_data p)) \<and>
     length (blk_bytes (pk_data p)) < 2 ^ 63"

definition view :: "packet \<Rightarrow> byte list" where
  "view p = take (unat (Packet_length p)) (Packet_data p)"

lemma length_view: "wf_packet p \<Longrightarrow> length (view p) = unat (pk_length p)"
  by (auto simp: wf_packet_def view_def Packet_length_def Packet_data_def)

lemma view_prefix_data: "wf_packet p \<Longrightarrow> Packet_data p = view p @ drop (unat (pk_length p)) (Packet_data p)"
  by (simp add: view_def Packet_length_def)

lemma unat_offset_skip:
  assumes "wf_packet p" and "n \<le> pk_length p"
  shows "unat (pk_offset p + n) = unat (pk_offset p) + unat n"
proof -
  have "unat n \<le> unat (pk_length p)"
    using assms(2) by (simp add: word_le_nat_alt)
  then have "unat (pk_offset p) + unat n < 2 ^ 64"
    using assms(1) by (simp add: wf_packet_def)
  then show ?thesis
    by (simp add: unat_add_no_wrap)
qed

lemma wf_Packet_new [wf_intros]:
  "length bs < 2 ^ 63 \<Longrightarrow> unat len \<le> length bs \<Longrightarrow> wf_packet (Packet_new a bs 0 len)"
  by (simp add: wf_packet_def Packet_new_def)

lemma wf_Packet_nocapture [wf_intros]:
  "length bs < 2 ^ 63 \<Longrightarrow> unat len \<le> length bs \<Longrightarrow> wf_packet (Packet_nocapture a bs 0 len)"
  by (simp add: wf_packet_def Packet_nocapture_def)

lemma view_Packet_new [view_simps]: "view (Packet_new a bs 0 len) = take (unat len) bs"
  by (simp add: view_def Packet_new_def Packet_length_def Packet_data_def)

lemma view_Packet_nocapture [view_simps]: "view (Packet_nocapture a bs 0 len) = take (unat len) bs"
  by (simp add: view_def Packet_nocapture_def Packet_length_def Packet_data_def)

lemma Packet_skip_le:
  "n \<le> pk_length p \<Longrightarrow>
   Packet_skip p n = p\<lparr>pk_offset := pk_offset p + n, pk_length := pk_length p - n\<rparr>"
  by (simp add: Packet_skip_def not_less Let_def)

lemma Packet_skip_gt: "pk_length p < n \<Longrightarrow> Packet_skip p n = Packet_skip p (pk_length p)"
  by (simp add: Packet_skip_def)

lemma wf_skip_le: "wf_packet p \<Longrightarrow> n \<le> pk_length p \<Longrightarrow> wf_packet (Packet_skip p n)"
  using unat_offset_skip [of p n]
  by (simp add: Packet_skip_le wf_packet_def word_le_nat_alt)

lemma view_skip_le:
  "wf_packet p \<Longrightarrow> n \<le> pk_length p \<Longrightarrow> view (Packet_skip p n) = drop (unat n) (view p)"
  using unat_offset_skip [of p n]
  by (simp add: Packet_skip_le view_def Packet_length_def Packet_data_def drop_take word_le_nat_alt
      add.commute)

lemma wf_skip [wf_intros]: "wf_packet p \<Longrightarrow> wf_packet (Packet_skip p n)"
  by (cases "n \<le> pk_length p") (simp_all add: wf_skip_le Packet_skip_gt not_le)

lemma view_skip [view_simps]: "wf_packet p \<Longrightarrow> view (Packet_skip p n) = drop (unat n) (view p)"
  by (cases "n \<le> pk_length p")
    (simp_all add: view_skip_le Packet_skip_gt not_le length_view word_less_nat_alt)

lemma data_skip_le:
  "wf_packet p \<Longrightarrow> n \<le> pk_length p \<Longrightarrow> Packet_data (Packet_skip p n) = drop (unat n) (Packet_data p)"
  using unat_offset_skip [of p n] by (simp add: Packet_skip_le Packet_data_def add.commute)

lemma wf_truncate [wf_intros]: "wf_packet p \<Longrightarrow> wf_packet (Packet_truncate p n)"
  by (auto simp: Packet_truncate_def wf_packet_def Let_def not_less word_le_nat_alt)

lemma view_truncate [view_simps]: "view (Packet_truncate p n) = take (unat n) (view p)"
  by (auto simp: Packet_truncate_def view_def Packet_length_def Packet_data_def Let_def min_def
      word_less_nat_alt)

lemma length_skip: "unat (pk_length (Packet_skip p n)) = unat (pk_length p) - unat n"
  by (auto simp: Packet_skip_def Let_def word_less_nat_alt not_less word_le_nat_alt)

section \<open>Properties\<close>

text \<open>
  \<^verbatim>\<open>skip\<close> and \<^verbatim>\<open>truncate\<close> never leave the block, whatever their argument, and together they cut
  the shown bytes in two at \<open>n\<close> (clamped to the packet's length): nothing is lost or repeated.
\<close>

theorem packet_split:
  assumes "wf_packet p"
  shows "wf_packet (Packet_skip p n) \<and> wf_packet (Packet_truncate p n)
    \<and> view (Packet_truncate p n) = take (unat n) (view p)
    \<and> view (Packet_skip p n) = drop (unat n) (view p)
    \<and> view (Packet_truncate p n) @ view (Packet_skip p n) = view p
    \<and> pk_data (Packet_skip p n) = pk_data p \<and> pk_data (Packet_truncate p n) = pk_data p"
proof -
  have "pk_data (Packet_skip p n) = pk_data p" "pk_data (Packet_truncate p n) = pk_data p"
    by (simp_all add: Packet_skip_def Packet_truncate_def Let_def)
  with assms show ?thesis
    by (simp add: wf_intros view_simps)
qed

text \<open>
  Skips compose: skipping \<open>m\<close> and then \<open>n\<close> bytes is one skip of \<open>m + n\<close> bytes as long as the
  sum does not wrap around, also where one of them passes the end of the packet.
\<close>

theorem skip_skip:
  assumes "unat m + unat n < 2 ^ 64"
  shows "Packet_skip (Packet_skip p m) n = Packet_skip p (m + n)"
proof -
  have sum: "unat (m + n) = unat m + unat n"
    using assms by (simp add: unat_add_no_wrap)
  let ?l = "pk_length p"
  consider "m > ?l" | "m \<le> ?l" "n > ?l - m" | "m \<le> ?l" "n \<le> ?l - m"
    by fastforce
  then show ?thesis
  proof cases
    case 1
    then have "m + n > ?l"
      using sum by (simp add: word_less_nat_alt)
    with 1 show ?thesis
      by (cases "n = 0") (simp_all add: Packet_skip_def Let_def word_neq_0_conv)
  next
    case 2
    then have "m + n > ?l"
      using sum by (simp add: word_less_nat_alt word_le_nat_alt)
    with 2 show ?thesis
      by (simp add: Packet_skip_def Let_def)
  next
    case 3
    then have "m + n \<le> ?l"
      using sum by (simp add: word_less_nat_alt word_le_nat_alt)
    with 3 show ?thesis
      by (simp add: Packet_skip_def Let_def not_less add.assoc)
  qed
qed

end
