(* ===== verification/Packet_Stream.thy ===== *)
theory Packet_Stream
  imports Packet
begin

text \<open>
  \<^verbatim>\<open>Stream\<close> (\<^verbatim>\<open>include/network.hpp\<close>, \<^verbatim>\<open>common/Stream.cpp\<close>): the scatter/gather overloads of \<^verbatim>\<open>write\<close>,
  which copy a sequence of packets into one fresh block and hand it to the virtual \<^verbatim>\<open>write\<close>, and the
  notification of a stream's readers.

  The virtual \<^verbatim>\<open>write(const Packet&)\<close> of the stream a component writes to is a function argument of
  the definitions that call it: it maps the stream's state and the packet to an outcome and the new
  state. Signals (the library \<^verbatim>\<open>more::signals\<close>) are modelled by the calls the program makes on them:
  raising a signal appends to the list of raised signals of its object, in program order.
\<close>

section \<open>Gathering packets\<close>

text \<open>First loop of \<^verbatim>\<open>write(begin, end)\<close>: the total size, in \<^verbatim>\<open>size_t\<close>.\<close>

fun gather_size :: "packet list \<Rightarrow> size_t \<Rightarrow> size_t" where
  "gather_size [] sz = sz"
| "gather_size (p # ps) sz = gather_size ps (sz + Packet_length p)"

text \<open>
  Second loop: every packet is copied to the running offset. A \<^verbatim>\<open>memcpy\<close> that reads past the
  source block or writes past the buffer is undefined behaviour.
\<close>

fun gather_copy :: "byte list \<Rightarrow> size_t \<Rightarrow> packet list \<Rightarrow> byte list outcome" where
  "gather_copy buffer offset [] = Ret buffer"
| "gather_copy buffer offset (p # ps) =
     (if unat (Packet_length p) \<le> length (Packet_data p)
         \<and> unat offset + unat (Packet_length p) \<le> length buffer
      then gather_copy (memcpy buffer (unat offset) (view p)) (offset + Packet_length p) ps
      else UB OutOfBounds)"

text \<open>
  \<^verbatim>\<open>write(begin, end)\<close> up to the virtual call: \<open>block\<close> is the memory that \<^verbatim>\<open>new uint8_t[size]\<close>
  returns (of the requested size, contents unspecified), \<open>a\<close> its address.
\<close>

definition Stream_gather :: "nat \<Rightarrow> (nat \<Rightarrow> byte list) \<Rightarrow> packet list \<Rightarrow> packet outcome" where
  "Stream_gather a block ps =
     (let sz = gather_size ps 0
      in map_outcome_val (\<lambda>buffer. Packet_new a buffer 0 sz)
           (gather_copy (block (unat sz)) 0 ps))"

text \<open>
  The two gathering overloads of \<^verbatim>\<open>write\<close>: the iterator pair, and the variadic one, which stores
  copies of its arguments in an array and passes its iterators. \<open>wr\<close> is the virtual \<^verbatim>\<open>write\<close>.
\<close>

definition Stream_write_range ::
  "('s \<Rightarrow> packet \<Rightarrow> bool outcome \<times> 's) \<Rightarrow> nat \<Rightarrow> (nat \<Rightarrow> byte list) \<Rightarrow> 's \<Rightarrow> packet list
     \<Rightarrow> bool outcome \<times> 's" where
  "Stream_write_range wr a block s ps =
     (case Stream_gather a block ps of
        Ret p \<Rightarrow> wr s p
      | Throw e \<Rightarrow> (Throw e, s)
      | UB u \<Rightarrow> (UB u, s))"

definition Stream_write_packets ::
  "('s \<Rightarrow> packet \<Rightarrow> bool outcome \<times> 's) \<Rightarrow> nat \<Rightarrow> (nat \<Rightarrow> byte list) \<Rightarrow> 's \<Rightarrow> packet list
     \<Rightarrow> bool outcome \<times> 's" where
  "Stream_write_packets wr a block s args =
     (let packets = args in Stream_write_range wr a block s packets)"

section \<open>Correctness of gathering\<close>

definition total_length :: "packet list \<Rightarrow> nat" where
  "total_length ps = sum_list (map (\<lambda>p. unat (pk_length p)) ps)"

lemma total_length_simps [simp]:
  "total_length [] = 0"
  "total_length (p # ps) = unat (pk_length p) + total_length ps"
  by (simp_all add: total_length_def)

lemma gather_size_eq:
  "unat sz + total_length ps < 2 ^ 64 \<Longrightarrow> unat (gather_size ps sz) = unat sz + total_length ps"
  by (induction ps arbitrary: sz) (simp_all add: Packet_length_def unat_add_no_wrap)

lemma wf_packet_data_long: "wf_packet p \<Longrightarrow> unat (pk_length p) \<le> length (Packet_data p)"
  by (auto simp: wf_packet_def Packet_data_def)

lemma gather_copy_eq:
  assumes "\<forall>p\<in>set ps. wf_packet p"
    and "unat offset + total_length ps = length buffer" and "length buffer < 2 ^ 63"
  shows "gather_copy buffer offset ps
    = Ret (take (unat offset) buffer @ concat (map view ps))"
  using assms
proof (induction ps arbitrary: buffer offset)
  case Nil
  then show ?case by simp
next
  case (Cons p ps)
  let ?b = "memcpy buffer (unat offset) (view p)"
  have len: "length (view p) = unat (pk_length p)" and "unat (pk_length p) \<le> length (Packet_data p)"
    using Cons.prems(1) by (simp_all add: length_view wf_packet_data_long)
  moreover have off: "unat (offset + pk_length p) = unat offset + unat (pk_length p)"
    using Cons.prems(2,3) by (simp add: unat_add_no_wrap)
  moreover have "take (unat offset + unat (pk_length p)) ?b = take (unat offset) buffer @ view p"
    using Cons.prems(2) take_memcpy [of "unat offset" "view p" buffer] len by simp
  moreover have "length ?b = length buffer"
    using Cons.prems(2) len by simp
  ultimately show ?case
    using Cons.IH [of "offset + pk_length p" ?b] Cons.prems by (simp add: Packet_length_def)
qed

lemma Stream_gather_eq:
  assumes "\<forall>p\<in>set ps. wf_packet p" and "total_length ps < 2 ^ 63" and "\<And>n. length (block n) = n"
  shows "Stream_gather a block ps
    = Ret (Packet_new a (concat (map view ps)) 0 (of_nat (total_length ps)))"
proof -
  have size: "unat (gather_size ps 0) = total_length ps"
    using gather_size_eq [of 0 ps] assms(2) by simp
  then have "gather_size ps 0 = of_nat (total_length ps)"
    using assms(2) by (simp add: word_unat_eq_iff)
  moreover have "gather_copy (block (total_length ps)) 0 ps = Ret (concat (map view ps))"
    using gather_copy_eq [OF assms(1), of 0 "block (total_length ps)"] assms(2,3) by simp
  ultimately show ?thesis
    using size by (simp add: Stream_gather_def Let_def)
qed

lemma length_concat_view:
  "\<forall>p\<in>set ps. wf_packet p \<Longrightarrow> length (concat (map view ps)) = total_length ps"
  by (induction ps) (simp_all add: length_view)

text \<open>
  C13. Gathering is memory safe and exact: for well-formed packets whose sizes add up to an
  addressable block, whatever the fresh block contains, no copy leaves it, and the packet handed to
  the virtual \<^verbatim>\<open>write\<close> is well-formed and shows the concatenation of the arguments' bytes.
\<close>

theorem gather_concat:
  assumes "\<forall>p\<in>set ps. wf_packet p" and "total_length ps < 2 ^ 63" and "\<forall>n. length (block n) = n"
  shows "\<exists>q. Stream_gather a block ps = Ret q \<and> wf_packet q \<and> view q = concat (map view ps)
    \<and> Stream_write_packets wr a block s ps = wr s q"
proof -
  let ?q = "Packet_new a (concat (map view ps)) 0 (of_nat (total_length ps))"
  have g: "Stream_gather a block ps = Ret ?q"
    using assms Stream_gather_eq by blast
  moreover have "wf_packet ?q" "view ?q = concat (map view ps)"
    using assms(1,2) by (simp_all add: wf_intros view_simps length_concat_view)
  ultimately show ?thesis
    by (simp add: Stream_write_packets_def Stream_write_range_def)
qed

theorem gather_concat_witness:
  "\<exists>q. Stream_gather 7 (\<lambda>n. replicate n 0) [Packet_new 1 [1, 2] 0 2, Packet_new 2 [3] 0 1] = Ret q
     \<and> view q = [1, 2, 3]"
proof -
  let ?ps = "[Packet_new 1 [1, 2] 0 2, Packet_new 2 [3] 0 1]"
  have "\<forall>p\<in>set ?ps. wf_packet p" "total_length ?ps < 2 ^ 63"
    by (simp_all add: wf_packet_def Packet_new_def)
  from gather_concat [OF this, of "\<lambda>n. replicate n 0" 7 "\<lambda>s p. (Ret True, s)" "()"] show ?thesis
    by (auto simp: view_simps)
qed

section \<open>Reader notification\<close>

text \<open>
  The member functions the program connects to signals, and callbacks of the application.
\<close>

datatype slot =
    CryptoSession_readPacket_slot
  | Tunnel_tunRead_slot
  | Tunnel_dataRead_slot
  | App_slot nat

text \<open>
  State of the base class: the slots connected to the signal \<^verbatim>\<open>read\<close> and the packets it was raised
  with. \<^verbatim>\<open>propagate\<close> raises the signal, \<^verbatim>\<open>connectRead\<close> connects a slot.
\<close>

record stream_base =
  st_slots :: "slot list"
  st_raised :: "packet list"

definition Stream_new :: stream_base where
  "Stream_new = \<lparr>st_slots = [], st_raised = []\<rparr>"

definition Stream_propagate :: "stream_base \<Rightarrow> packet \<Rightarrow> stream_base" where
  "Stream_propagate s p = s\<lparr>st_raised := st_raised s @ [p]\<rparr>"

definition Stream_connectRead :: "stream_base \<Rightarrow> slot \<Rightarrow> stream_base" where
  "Stream_connectRead s fn = s\<lparr>st_slots := st_slots s @ [fn]\<rparr>"

end
