(* ===== verification/Channels.thy ===== *)
theory Channels
  imports Packet_Stream
begin

text \<open>
  The channels of a tunnel (\<^verbatim>\<open>net/tunnel-channels.hpp\<close>, \<^verbatim>\<open>net/Tunnel.Channel.cpp\<close>,
  \<^verbatim>\<open>net/Tunnel.UnreliableChannel.cpp\<close>, \<^verbatim>\<open>net/Tunnel.ReliableChannel.cpp\<close>): the wire formats of the two
  packet headers and every operation of the two channel classes. The stream below a channel is the
  argument \<open>E\<close>: its virtual \<^verbatim>\<open>write\<close> and the memory that \<^verbatim>\<open>new\<close> returns while gathering.
\<close>

section \<open>Base class\<close>

datatype chan_signal = Receive packet | CanSend

record 'n channel =
  ch_next :: 'n
  ch_cid :: byte
  ch_receive_slots :: "slot list"
  ch_canSend_slots :: "slot list"
  ch_raised :: "chan_signal list"

record 'n stream_env =
  se_write :: "'n \<Rightarrow> packet \<Rightarrow> bool outcome \<times> 'n"
  se_addr :: nat
  se_block :: "nat \<Rightarrow> byte list"

definition Channel_connectReceive :: "('n, 'z) channel_scheme \<Rightarrow> slot \<Rightarrow> ('n, 'z) channel_scheme" where
  "Channel_connectReceive c cb = c\<lparr>ch_receive_slots := ch_receive_slots c @ [cb]\<rparr>"

definition Channel_connectCanSend :: "('n, 'z) channel_scheme \<Rightarrow> slot \<Rightarrow> ('n, 'z) channel_scheme" where
  "Channel_connectCanSend c cb = c\<lparr>ch_canSend_slots := ch_canSend_slots c @ [cb]\<rparr>"

definition raise_signal :: "chan_signal \<Rightarrow> ('n, 'z) channel_scheme \<Rightarrow> ('n, 'z) channel_scheme" where
  "raise_signal s c = c\<lparr>ch_raised := ch_raised c @ [s]\<rparr>"

text \<open>\<^verbatim>\<open>next.write(args...)\<close> on the channel's stream.\<close>

definition next_write ::
  "'n stream_env \<Rightarrow> ('n, 'z) channel_scheme \<Rightarrow> packet list \<Rightarrow> bool outcome \<times> ('n, 'z) channel_scheme" where
  "next_write E c ps =
     (let (r, n) = Stream_write_packets (se_write E) (se_addr E) (se_block E) (ch_next c) ps
      in (r, c\<lparr>ch_next := n\<rparr>))"

section \<open>Unreliable channel\<close>

definition Unreliable_size :: size_t where "Unreliable_size = 1"

definition unrel_bytes :: "byte \<Rightarrow> byte list" where
  "unrel_bytes hdr_cid = [hdr_cid]"

definition unrel_of_bytes :: "byte list \<Rightarrow> byte" where
  "unrel_of_bytes data = data ! 0"

definition unrel_packet :: "byte \<Rightarrow> packet" where
  "unrel_packet hdr_cid = Packet_nocapture 0 (unrel_bytes hdr_cid) 0 Unreliable_size"

definition UnreliableChannel_new :: "'n \<Rightarrow> byte \<Rightarrow> 'n channel" where
  "UnreliableChannel_new nx cid =
     \<lparr>ch_next = nx, ch_cid = cid, ch_receive_slots = [], ch_canSend_slots = [], ch_raised = []\<rparr>"

definition UnreliableChannel_writePacket ::
  "'n stream_env \<Rightarrow> 'n channel \<Rightarrow> packet \<Rightarrow> int outcome \<times> 'n channel" where
  "UnreliableChannel_writePacket E c p =
     (let (r, c') = next_write E c [unrel_packet (ch_cid c), p]
      in (map_outcome_val of_bool r, c'))"

definition UnreliableChannel_readPacket :: "'n channel \<Rightarrow> packet \<Rightarrow> 'n channel" where
  "UnreliableChannel_readPacket c p = raise_signal (Receive (Packet_skip p Unreliable_size)) c"

section \<open>Reliable channel\<close>

text \<open>
  \<^verbatim>\<open>header_t\<close>, packed: \<^verbatim>\<open>cid\<close>, \<^verbatim>\<open>flags\<close>, \<^verbatim>\<open>seq\<close>; the sequence number is stored in network order.
\<close>

record rel_header =
  hd_cid :: byte
  hd_flags :: byte
  hd_seq :: u32

definition ACK :: byte where "ACK = 1"

definition Reliable_size :: size_t where "Reliable_size = 6"

definition ReliablePacketHeader_new :: "byte \<Rightarrow> byte \<Rightarrow> u32 \<Rightarrow> rel_header" where
  "ReliablePacketHeader_new cid flags seq = \<lparr>hd_cid = cid, hd_flags = flags, hd_seq = htonl seq\<rparr>"

definition rel_bytes :: "rel_header \<Rightarrow> byte list" where
  "rel_bytes h = [hd_cid h, hd_flags h] @ bytes_of_u32 (hd_seq h)"

definition rel_of_bytes :: "byte list \<Rightarrow> rel_header" where
  "rel_of_bytes buffer =
     \<lparr>hd_cid = buffer ! 0, hd_flags = buffer ! 1, hd_seq = u32_of_bytes (drop 2 buffer)\<rparr>"

definition header_seq :: "rel_header \<Rightarrow> u32" where
  "header_seq h = ntohl (hd_seq h)"

definition rel_packet :: "rel_header \<Rightarrow> packet" where
  "rel_packet h = Packet_nocapture 0 (rel_bytes h) 0 Reliable_size"

record 'n reliable = "'n channel" +
  rc_timeout :: bool
  rc_inFlight :: "packet option"
  rc_localSeq :: u32
  rc_peerSeq :: u32

definition ReliableChannel_new :: "'n \<Rightarrow> byte \<Rightarrow> 'n reliable" where
  "ReliableChannel_new nx cid =
     \<lparr>ch_next = nx, ch_cid = cid, ch_receive_slots = [], ch_canSend_slots = [], ch_raised = [],
      rc_timeout = False, rc_inFlight = None, rc_localSeq = 0, rc_peerSeq = 0\<rparr>"

definition transmitPacket ::
  "'n stream_env \<Rightarrow> 'n reliable \<Rightarrow> packet \<Rightarrow> unit outcome \<times> 'n reliable" where
  "transmitPacket E c p =
     (let header = ReliablePacketHeader_new (ch_cid c) 0 (rc_localSeq c);
          (r, c') = next_write E c [rel_packet header, p]
      in (map_outcome_val (\<lambda>_. ()) r, c'))"

definition transmitQueue :: "'n stream_env \<Rightarrow> 'n reliable \<Rightarrow> unit outcome \<times> 'n reliable" where
  "transmitQueue E c =
     (case rc_inFlight c of
        None \<Rightarrow> (Ret (), c)
      | Some p \<Rightarrow>
          (let (r, c') = transmitPacket E c p
           in if is_ret r then (Ret (), c'\<lparr>rc_timeout := True\<rparr>) else (r, c')))"

definition onTimeout :: "'n stream_env \<Rightarrow> 'n reliable \<Rightarrow> unit outcome \<times> 'n reliable" where
  "onTimeout E c = transmitQueue E c"

definition ReliableChannel_writePacket :: "'n reliable \<Rightarrow> packet \<Rightarrow> int \<times> 'n reliable" where
  "ReliableChannel_writePacket c p =
     (if rc_inFlight c \<noteq> None then (0, c) else (1, c\<lparr>rc_inFlight := Some p\<rparr>))"

text \<open>
  \<^verbatim>\<open>readPacket\<close> casts \<^verbatim>\<open>packet.data()\<close> to a header without checking the length: reading past the
  block is undefined behaviour.
\<close>

definition ReliableChannel_readPacket ::
  "'n stream_env \<Rightarrow> 'n reliable \<Rightarrow> packet \<Rightarrow> unit outcome \<times> 'n reliable" where
  "ReliableChannel_readPacket E c p =
     (if length (Packet_data p) < unat Reliable_size then (UB OutOfBounds, c)
      else
        let header = rel_of_bytes (Packet_data p)
        in if hd_flags header AND ACK \<noteq> 0 \<and> rc_localSeq c = header_seq header then
             (Ret (), raise_signal CanSend
                (c\<lparr>rc_localSeq := rc_localSeq c + 1, rc_inFlight := None, rc_timeout := False\<rparr>))
           else if hd_flags header = 0 then
             let ackHeader = ReliablePacketHeader_new (ch_cid c) ACK (header_seq header);
                 c1 = (if rc_peerSeq c < header_seq header
                       then raise_signal (Receive (Packet_skip p Reliable_size))
                              (c\<lparr>rc_peerSeq := header_seq header\<rparr>)
                       else c);
                 (r, c2) = next_write E c1 [rel_packet ackHeader]
             in (map_outcome_val (\<lambda>_. ()) r, c2)
           else (Ret (), c))"

section \<open>Headers are codecs\<close>

lemma length_rel_bytes [simp]: "length (rel_bytes h) = 6"
  by (simp add: rel_bytes_def)

lemma rel_of_bytes_rel_bytes [codec_simps]: "rel_of_bytes (rel_bytes h @ r) = h"
  by (simp add: rel_of_bytes_def rel_bytes_def codec_simps)

interpretation rel: codec rel_bytes rel_of_bytes 6
  by unfold_locales (simp_all add: codec_simps)

interpretation unrel: codec unrel_bytes unrel_of_bytes 1
  by unfold_locales (simp_all add: unrel_bytes_def unrel_of_bytes_def)

lemma ACK_nonzero [simp]: "ACK \<noteq> 0" "0 \<noteq> ACK"
  by (simp_all add: ACK_def)

lemma header_fields [simp]:
  "hd_cid (ReliablePacketHeader_new cid flags seq) = cid"
  "hd_flags (ReliablePacketHeader_new cid flags seq) = flags"
  "header_seq (ReliablePacketHeader_new cid flags seq) = seq"
  by (simp_all add: ReliablePacketHeader_new_def header_seq_def)

lemma wf_rel_packet [wf_intros]: "wf_packet (rel_packet h)"
  by (simp add: rel_packet_def wf_intros Reliable_size_def)

lemma view_rel_packet [view_simps]: "view (rel_packet h) = rel_bytes h"
  by (simp add: rel_packet_def view_simps Reliable_size_def)

lemma wf_unrel_packet [wf_intros]: "wf_packet (unrel_packet b)"
  by (simp add: unrel_packet_def wf_intros Unreliable_size_def unrel_bytes_def)

lemma view_unrel_packet [view_simps]: "view (unrel_packet b) = unrel_bytes b"
  by (simp add: unrel_packet_def view_simps Unreliable_size_def unrel_bytes_def)

text \<open>
  The header of a reliable packet survives the wire: whatever payload follows, parsing the six
  bytes gives back the channel, the flags and the sequence number in host order, and the sequence
  number travels most significant byte first.
\<close>

theorem reliable_header_roundtrip:
  "let h = rel_of_bytes (view (rel_packet (ReliablePacketHeader_new cid flags seq)) @ payload)
   in hd_cid h = cid \<and> hd_flags h = flags \<and> header_seq h = seq
      \<and> take 4 (drop 2 (view (rel_packet (ReliablePacketHeader_new cid flags seq))))
        = rev (bytes_of_u32 seq)"
proof -
  obtain a b c d where "bytes_of_u32 seq = [a, b, c, d]"
    using length_eq_4_iff [of "bytes_of_u32 seq"] by auto
  then have "bytes_of_u32 (htonl seq) = rev (bytes_of_u32 seq)"
    by (simp add: htonl_def bytes_of_u32_of_bytes)
  then show ?thesis
    by (simp add: Let_def view_simps codec_simps) (simp add: rel_bytes_def ReliablePacketHeader_new_def)
qed

section \<open>Behaviour of the operations over a provider of fresh memory\<close>

text \<open>
  What a channel needs of the stream environment: \<^verbatim>\<open>new uint8_t[n]\<close> returns \<open>n\<close> bytes. Then writing
  well-formed packets is one call of the virtual \<^verbatim>\<open>write\<close> with a packet that shows their bytes.
\<close>

locale fresh_memory =
  fixes E :: "'n stream_env"
  assumes length_block: "length (se_block E n) = n"
begin

definition framed_packet :: "packet list \<Rightarrow> packet" where
  "framed_packet ps =
     Packet_new (se_addr E) (concat (map view ps)) 0 (of_nat (total_length ps))"

lemma next_write_eq:
  assumes "\<forall>p\<in>set ps. wf_packet p" and "total_length ps < 2 ^ 63"
  shows "next_write E c ps
    = (let (r, n) = se_write E (ch_next c) (framed_packet ps) in (r, c\<lparr>ch_next := n\<rparr>))"
  using Stream_gather_eq [OF assms length_block, of "se_addr E"]
  by (simp add: next_write_def Stream_write_packets_def Stream_write_range_def framed_packet_def)

lemma wf_framed_packet:
  "\<forall>p\<in>set ps. wf_packet p \<Longrightarrow> total_length ps < 2 ^ 63 \<Longrightarrow> wf_packet (framed_packet ps)"
  by (simp add: framed_packet_def wf_intros length_concat_view)

lemma view_framed_packet:
  "\<forall>p\<in>set ps. wf_packet p \<Longrightarrow> total_length ps < 2 ^ 63 \<Longrightarrow> view (framed_packet ps) = concat (map view ps)"
  by (simp add: framed_packet_def view_simps length_concat_view)

end

section \<open>Streams that are observed\<close>

text \<open>
  \<open>sent\<close> are the byte strings that a stream has put on the wire. A write may add the bytes of its packet
  and nothing else, whatever it answers: it may refuse the packet, lose it, or throw an exception.
\<close>

definition observes :: "'n stream_env \<Rightarrow> ('n \<Rightarrow> byte list set) \<Rightarrow> bool" where
  "observes E sent \<longleftrightarrow> (\<forall>n p. sent (snd (se_write E n p)) \<subseteq> insert (view p) (sent n))"

locale wire = fresh_memory E for E :: "'n stream_env" +
  fixes sent :: "'n \<Rightarrow> byte list set"
  assumes observed: "observes E sent"
begin

lemma next_write_sent:
  assumes "next_write E c ps = (r, c')" and "\<forall>p\<in>set ps. wf_packet p" and "total_length ps < 2 ^ 63"
  shows "\<exists>n. c' = c\<lparr>ch_next := n\<rparr> \<and> sent n \<subseteq> insert (concat (map view ps)) (sent (ch_next c))"
proof -
  obtain x n where w: "se_write E (ch_next c) (framed_packet ps) = (x, n)" by fastforce
  have "sent (snd (se_write E (ch_next c) (framed_packet ps))) \<subseteq> insert (view (framed_packet ps)) (sent (ch_next c))"
    using observed unfolding observes_def by blast
  with assms w show ?thesis by (intro exI [of _ n]) (simp add: next_write_eq view_framed_packet)
qed

end

text \<open>What the properties ask of a stream, in one word.\<close>

definition carries :: "'n stream_env \<Rightarrow> ('n \<Rightarrow> byte list set) \<Rightarrow> bool" where
  "carries E sent \<longleftrightarrow> (\<forall>n. length (se_block E n) = n) \<and> observes E sent"

lemma wire_carries: "carries E sent \<Longrightarrow> wire E sent"
  by unfold_locales (simp_all add: carries_def)

end
