(* ===== verification/Reliable_Protocol.thy ===== *)
theory Reliable_Protocol
  imports Channels "HOL-Library.Sublist"
begin

text \<open>
  Two \<^verbatim>\<open>ReliableChannel\<close> objects over streams whose writes may fail, joined by a network that may lose,
  repeat and reorder frames, and the invariant that the stop-and-wait protocol of
  \<^verbatim>\<open>net/Tunnel.ReliableChannel.cpp\<close> keeps in every reachable state of the pair.
\<close>

section \<open>Frames\<close>

definition frame_header :: "byte list \<Rightarrow> rel_header" where
  "frame_header f = rel_of_bytes f"

abbreviation frame_seq :: "byte list \<Rightarrow> nat" where
  "frame_seq f \<equiv> unat (header_seq (frame_header f))"

abbreviation frame_flags :: "byte list \<Rightarrow> byte" where
  "frame_flags f \<equiv> hd_flags (frame_header f)"

definition data_frame :: "byte \<Rightarrow> u32 \<Rightarrow> byte list \<Rightarrow> byte list" where
  "data_frame cid seq payload = rel_bytes (ReliablePacketHeader_new cid 0 seq) @ payload"

definition ack_frame :: "byte \<Rightarrow> u32 \<Rightarrow> byte list" where
  "ack_frame cid seq = rel_bytes (ReliablePacketHeader_new cid ACK seq)"

lemma data_frame_fields [simp]:
  "frame_header (data_frame cid seq payload) = ReliablePacketHeader_new cid 0 seq"
  "drop 6 (data_frame cid seq payload) = payload"
  "6 \<le> length (data_frame cid seq payload)"
  by (simp_all add: data_frame_def frame_header_def codec_simps)

lemma ack_frame_fields [simp]:
  "frame_header (ack_frame cid seq) = ReliablePacketHeader_new cid ACK seq"
  "6 \<le> length (ack_frame cid seq)"
  using rel_of_bytes_rel_bytes [of _ "[]"] by (simp_all add: ack_frame_def frame_header_def)

text \<open>Payloads delivered to the application, oldest first.\<close>

definition received :: "'n reliable \<Rightarrow> byte list list" where
  "received c = concat (map (\<lambda>s. case s of Receive p \<Rightarrow> [view p] | CanSend \<Rightarrow> []) (ch_raised c))"

definition small_packet :: "packet \<Rightarrow> bool" where
  "small_packet p \<longleftrightarrow> wf_packet p \<and> unat (pk_length p) < 2 ^ 62"

lemma rel_packet_length [simp]: "unat (pk_length (rel_packet h)) = 6"
  by (simp add: rel_packet_def Packet_nocapture_def Reliable_size_def)

lemma onTimeout_idle: "rc_inFlight c = None \<Longrightarrow> onTimeout E c = (Ret (), c)"
  by (simp add: onTimeout_def transmitQueue_def)

lemma rel_of_bytes_take: "6 \<le> length bs \<Longrightarrow> rel_of_bytes (bs @ r) = rel_of_bytes bs"
  by (auto simp: rel_of_bytes_def u32_of_bytes_def nth_append)

text \<open>Reading a packet only depends on the frame it shows.\<close>

lemma packet_header:
  assumes "wf_packet p" and "6 \<le> length (view p)"
  shows "rel_of_bytes (Packet_data p) = frame_header (view p)" and "6 \<le> length (Packet_data p)"
proof -
  have d: "Packet_data p = view p @ drop (unat (pk_length p)) (Packet_data p)"
    using assms(1) by (rule view_prefix_data)
  from assms(2) show "6 \<le> length (Packet_data p)"
    by (subst d) simp
  show "rel_of_bytes (Packet_data p) = frame_header (view p)"
    using rel_of_bytes_take [OF assms(2)] by (subst d) (simp add: frame_header_def)
qed

lemma readPacket_ack:
  assumes "wf_packet p" and "6 \<le> length (view p)" and "frame_flags (view p) = ACK"
  shows "ReliableChannel_readPacket E c p =
    (Ret (), if rc_localSeq c = header_seq (frame_header (view p))
             then raise_signal CanSend
                (c\<lparr>rc_localSeq := rc_localSeq c + 1, rc_inFlight := None, rc_timeout := False\<rparr>)
             else c)"
  using packet_header [OF assms(1,2)] assms(3)
  by (simp add: ReliableChannel_readPacket_def Let_def Reliable_size_def ACK_def)

lemma raise_signal_fields [simp]:
  "ch_next (raise_signal x c) = ch_next c"
  "ch_cid (raise_signal x c) = ch_cid c"
  "ch_raised (raise_signal x c) = ch_raised c @ [x]"
  "rc_timeout (raise_signal x d) = rc_timeout d"
  "rc_inFlight (raise_signal x d) = rc_inFlight d"
  "rc_localSeq (raise_signal x d) = rc_localSeq d"
  "rc_peerSeq (raise_signal x d) = rc_peerSeq d"
  by (simp_all add: raise_signal_def)

lemma received_raise [simp]:
  "received (raise_signal CanSend c) = received c"
  "received (raise_signal (Receive p) c) = received c @ [view p]"
  by (simp_all add: received_def)

lemma received_upd [simp]:
  "received (c\<lparr>ch_next := x\<rparr>) = received c"
  "received (c\<lparr>rc_timeout := t\<rparr>) = received c"
  "received (c\<lparr>rc_inFlight := i\<rparr>) = received c"
  "received (c\<lparr>rc_localSeq := l\<rparr>) = received c"
  "received (c\<lparr>rc_peerSeq := l\<rparr>) = received c"
  by (simp_all add: received_def)

section \<open>The operations over a wire\<close>

text \<open>What each operation does to the channel, and what it can add to the wire below, whatever the write answers.\<close>

lemma readPacket_data:
  assumes "wf_packet p" and "6 \<le> length (view p)" and "frame_flags (view p) = 0"
  shows "ReliableChannel_readPacket E c p =
    (let k = header_seq (frame_header (view p));
         c1 = (if rc_peerSeq c < k
               then raise_signal (Receive (Packet_skip p Reliable_size)) (c\<lparr>rc_peerSeq := k\<rparr>) else c);
         (r, c2) = next_write E c1 [rel_packet (ReliablePacketHeader_new (ch_cid c) ACK k)]
     in (map_outcome_val (\<lambda>_. ()) r, c2))"
  using packet_header [OF assms(1,2)] assms(3)
  by (simp add: ReliableChannel_readPacket_def Let_def Reliable_size_def)

context wire
begin

lemma ack_write_sent:
  assumes "next_write E c [rel_packet (ReliablePacketHeader_new cid ACK k)] = (r, c')"
  shows "\<exists>n. c' = c\<lparr>ch_next := n\<rparr> \<and> sent n \<subseteq> insert (ack_frame cid k) (sent (ch_next c))"
  using next_write_sent [OF assms] by (simp add: wf_intros view_simps ack_frame_def)

lemma onTimeout_sent:
  assumes "onTimeout E c = (r, c')" and "rc_inFlight c = Some p" and "small_packet p"
  shows "\<exists>n t. c' = c\<lparr>ch_next := n, rc_timeout := t\<rparr>
    \<and> sent n \<subseteq> insert (data_frame (ch_cid c) (rc_localSeq c) (view p)) (sent (ch_next c))"
proof -
  let ?ps = "[rel_packet (ReliablePacketHeader_new (ch_cid c) 0 (rc_localSeq c)), p]"
  obtain x d where w: "next_write E c ?ps = (x, d)" by fastforce
  have "\<exists>n. d = c\<lparr>ch_next := n\<rparr> \<and> sent n \<subseteq> insert (data_frame (ch_cid c) (rc_localSeq c) (view p)) (sent (ch_next c))"
    using next_write_sent [OF w] assms(3) by (simp add: small_packet_def wf_intros view_simps data_frame_def)
  then obtain n where n: "d = c\<lparr>ch_next := n\<rparr>"
    "sent n \<subseteq> insert (data_frame (ch_cid c) (rc_localSeq c) (view p)) (sent (ch_next c))" by blast
  have "c' = c\<lparr>ch_next := n, rc_timeout := if is_ret x then True else rc_timeout c\<rparr>"
    using assms(1,2) w n(1) by (cases x) (auto simp: onTimeout_def transmitQueue_def transmitPacket_def)
  with n(2) show ?thesis by blast
qed

lemma readPacket_data_sent:
  assumes "ReliableChannel_readPacket E c p = (r, c')"
    and "wf_packet p" and "6 \<le> length (view p)" and "frame_flags (view p) = 0" and "k = header_seq (frame_header (view p))"
  shows "\<exists>n. c' = (if rc_peerSeq c < k then raise_signal (Receive (Packet_skip p Reliable_size)) (c\<lparr>rc_peerSeq := k\<rparr>) else c)
        \<lparr>ch_next := n\<rparr>
    \<and> sent n \<subseteq> insert (ack_frame (ch_cid c) k) (sent (ch_next c))"
proof -
  let ?c = "if rc_peerSeq c < k then raise_signal (Receive (Packet_skip p Reliable_size)) (c\<lparr>rc_peerSeq := k\<rparr>) else c"
  obtain x d where w: "next_write E ?c [rel_packet (ReliablePacketHeader_new (ch_cid c) ACK k)] = (x, d)" by fastforce
  have "c' = d" using assms(1) w unfolding readPacket_data [OF assms(2-4)] assms(5) [symmetric] by (simp add: Let_def)
  moreover have "ch_next ?c = ch_next c" by simp
  ultimately show ?thesis using ack_write_sent [OF w] by metis
qed

end

section \<open>The pair of endpoints\<close>

text \<open>
  Two channels and, as history, the payloads that each application handed over successfully.
\<close>

record 'n sys =
  chA :: "'n reliable"
  chB :: "'n reliable"
  wroteA :: "byte list list"
  wroteB :: "byte list list"

definition init_sys :: "'n \<Rightarrow> 'n \<Rightarrow> byte \<Rightarrow> byte \<Rightarrow> 'n sys" where
  "init_sys nA nB cidA cidB =
     \<lparr>chA = ReliableChannel_new nA cidA, chB = ReliableChannel_new nB cidB, wroteA = [], wroteB = []\<rparr>"

definition swap :: "'n sys \<Rightarrow> 'n sys" where
  "swap s = \<lparr>chA = chB s, chB = chA s, wroteA = wroteB s, wroteB = wroteA s\<rparr>"

lemma swap_fields [simp]:
  "chA (swap s) = chB s" "chB (swap s) = chA s"
  "wroteA (swap s) = wroteB s" "wroteB (swap s) = wroteA s" "swap (swap s) = s"
  by (simp_all add: swap_def)

text \<open>
  A step of endpoint A over the stream \<open>E\<close>: its application writes, its timer callback runs, or it reads a
  packet that shows some frame B has ever put on the wire. The steps go on after an exception. The timer
  callback may run in every state, whether the timer was started or not: this allows more runs than the
  program has, so what holds in all of them holds in the program; \<open>loop_step\<close> in the theory Reliable_Pair has the condition.
\<close>

inductive a_step :: "'n stream_env \<Rightarrow> ('n \<Rightarrow> byte list set) \<Rightarrow> 'n sys \<Rightarrow> 'n sys \<Rightarrow> bool" for E sent where
  app_write: "small_packet p \<Longrightarrow> ReliableChannel_writePacket (chA s) p = (r, c) \<Longrightarrow>
     a_step E sent s (s\<lparr>chA := c, wroteA := wroteA s @ (if r = 1 then [view p] else [])\<rparr>)"
| timer: "onTimeout E (chA s) = (r, c) \<Longrightarrow> a_step E sent s (s\<lparr>chA := c\<rparr>)"
| recv: "wf_packet p \<Longrightarrow> view p \<in> sent (ch_next (chB s)) \<Longrightarrow>
     ReliableChannel_readPacket E (chA s) p = (r, c) \<Longrightarrow> a_step E sent s (s\<lparr>chA := c\<rparr>)"

inductive net_step :: "'n stream_env \<Rightarrow> 'n stream_env \<Rightarrow> ('n \<Rightarrow> byte list set) \<Rightarrow> 'n sys \<Rightarrow> 'n sys \<Rightarrow> bool"
  for EA EB sent where
  A: "a_step EA sent s t \<Longrightarrow> net_step EA EB sent s t"
| B: "a_step EB sent (swap s) t \<Longrightarrow> net_step EA EB sent s (swap t)"

inductive_cases net_stepE: "net_step EA EB sent s t"

section \<open>The invariant of one direction\<close>

text \<open>
  \<open>sent_ok\<close>: the sender's sequence number counts the acknowledged writes, and a packet in flight is
  the last one written. \<open>wire_ok\<close>: a data frame carries the payload its number says. \<open>acks_ok\<close>: an
  acknowledgement was earned: the receiver had seen that number. \<open>recv_ok\<close>: the receiver is at most
  one number behind, and has delivered exactly the payloads numbered \<open>1\<close> to its \<^verbatim>\<open>peerSeq\<close>.
\<close>

definition sent_ok :: "'n reliable \<Rightarrow> byte list list \<Rightarrow> bool" where
  "sent_ok c w \<longleftrightarrow>
     (case rc_inFlight c of
        None \<Rightarrow> length w = unat (rc_localSeq c)
      | Some p \<Rightarrow> length w = Suc (unat (rc_localSeq c)) \<and> small_packet p
          \<and> view p = w ! unat (rc_localSeq c))"

definition wire_ok :: "byte list set \<Rightarrow> byte list list \<Rightarrow> bool" where
  "wire_ok fs w \<longleftrightarrow> (\<forall>f\<in>fs. 6 \<le> length f \<and> (frame_flags f = 0 \<or> frame_flags f = ACK)
     \<and> (frame_flags f = 0 \<longrightarrow> frame_seq f < length w \<and> drop 6 f = w ! frame_seq f))"

definition acks_ok :: "byte list set \<Rightarrow> byte list list \<Rightarrow> nat \<Rightarrow> bool" where
  "acks_ok fs w P \<longleftrightarrow> (\<forall>f\<in>fs. frame_flags f = ACK \<longrightarrow> frame_seq f < length w \<and> frame_seq f \<le> P)"

definition recv_ok :: "nat \<Rightarrow> byte list list \<Rightarrow> nat \<Rightarrow> byte list list \<Rightarrow> bool" where
  "recv_ok L w P got \<longleftrightarrow> P \<le> L \<and> L \<le> Suc P \<and> (0 < P \<longrightarrow> P < length w) \<and> got = tl (take (Suc P) w)"

definition dir_inv :: "('n \<Rightarrow> byte list set) \<Rightarrow> 'n reliable \<Rightarrow> 'n reliable \<Rightarrow> byte list list \<Rightarrow> bool" where
  "dir_inv sent src dst w \<longleftrightarrow>
     sent_ok src w \<and> wire_ok (sent (ch_next src)) w
     \<and> acks_ok (sent (ch_next dst)) w (unat (rc_peerSeq dst))
     \<and> recv_ok (unat (rc_localSeq src)) w (unat (rc_peerSeq dst)) (received dst)"

lemma sent_ok_cong:
  "rc_inFlight c = rc_inFlight a \<Longrightarrow> rc_localSeq c = rc_localSeq a \<Longrightarrow> sent_ok c w = sent_ok a w"
  by (simp add: sent_ok_def split: option.split)

lemma sent_ok_upd [simp]:
  "sent_ok (a\<lparr>ch_next := x\<rparr>) w = sent_ok a w"
  "sent_ok (a\<lparr>rc_timeout := t\<rparr>) w = sent_ok a w"
  "sent_ok (a\<lparr>rc_peerSeq := l\<rparr>) w = sent_ok a w"
  "sent_ok (raise_signal z a) w = sent_ok a w"
  by (auto intro!: sent_ok_cong)

lemma sent_ok_None [simp]: "sent_ok (a\<lparr>rc_inFlight := None\<rparr>) w \<longleftrightarrow> length w = unat (rc_localSeq a)"
  by (simp add: sent_ok_def)

lemma sent_ok_Some [simp]:
  "sent_ok (a\<lparr>rc_inFlight := Some p\<rparr>) w \<longleftrightarrow>
     length w = Suc (unat (rc_localSeq a)) \<and> small_packet p \<and> view p = w ! unat (rc_localSeq a)"
  by (simp add: sent_ok_def)

lemma sent_okD: "sent_ok c w \<Longrightarrow> k < length w \<Longrightarrow> k \<le> unat (rc_localSeq c)"
  by (auto simp: sent_ok_def split: option.splits)

lemma sent_ok_inFlight: "sent_ok c w \<Longrightarrow> unat (rc_localSeq c) < length w \<Longrightarrow> rc_inFlight c \<noteq> None"
  by (auto simp: sent_ok_def split: option.splits)

lemma wire_ok_snoc_write: "wire_ok fs w \<Longrightarrow> wire_ok fs (w @ [x])"
  by (auto simp: wire_ok_def nth_append)

lemma wire_ok_insert: "fs \<subseteq> insert f gs \<Longrightarrow> wire_ok {f} w \<Longrightarrow> wire_ok gs w \<Longrightarrow> wire_ok fs w"
  unfolding wire_ok_def by blast

lemma acks_ok_insert: "fs \<subseteq> insert f gs \<Longrightarrow> acks_ok {f} w P \<Longrightarrow> acks_ok gs w P \<Longrightarrow> acks_ok fs w P"
  unfolding acks_ok_def by blast

lemma acks_ok_mono: "acks_ok fs w P \<Longrightarrow> P \<le> Q \<Longrightarrow> acks_ok fs (w @ v) Q"
  by (fastforce simp: acks_ok_def)

lemma acks_ok_data_frame [simp]: "acks_ok {data_frame cid k x} w P"
  by (simp add: acks_ok_def ACK_def)

lemma wire_ok_ack_frame [simp]: "wire_ok {ack_frame cid k} w"
  by (simp add: wire_ok_def ACK_def)

lemma tl_take_snoc: "0 < P \<longrightarrow> P < length w \<Longrightarrow> tl (take (Suc P) (w @ [x])) = tl (take (Suc P) w)"
  by (cases w; cases P) auto

lemma tl_take_Suc: "Suc P < length w \<Longrightarrow> tl (take (Suc (Suc P)) w) = tl (take (Suc P) w) @ [w ! Suc P]"
  by (cases w) (simp_all add: take_Suc_conv_app_nth)

lemma recv_ok_snoc: "recv_ok L w P got \<Longrightarrow> recv_ok L (w @ [x]) P got"
  using tl_take_snoc [of P w x] by (auto simp: recv_ok_def)

lemma recv_ok_deliver:
  "recv_ok L w P got \<Longrightarrow> P < k \<Longrightarrow> k \<le> L \<Longrightarrow> k < length w \<Longrightarrow> recv_ok L w k (got @ [w ! k])"
  using tl_take_Suc [of P w] by (auto simp: recv_ok_def le_Suc_eq)

lemma recv_ok_acked: "recv_ok L w P got \<Longrightarrow> L \<le> P \<Longrightarrow> recv_ok (Suc L) w P got"
  by (auto simp: recv_ok_def)

lemma wire_ok_frameD:
  assumes "wire_ok fs w" and "f \<in> fs"
  shows "6 \<le> length f" and "frame_flags f = 0 \<or> frame_flags f = ACK"
    and "frame_flags f = 0 \<Longrightarrow> frame_seq f < length w \<and> drop 6 f = w ! frame_seq f"
  using assms by (auto simp: wire_ok_def)

section \<open>Every step keeps the invariant\<close>

lemma dir_inv_dst_cong:
  "ch_next c = ch_next a \<Longrightarrow> rc_peerSeq c = rc_peerSeq a \<Longrightarrow> received c = received a \<Longrightarrow>
   dir_inv sent b c v = dir_inv sent b a v"
  by (simp add: dir_inv_def)

text \<open>Adding one frame to the wire of the sender, or an acknowledgement to that of the receiver.\<close>

lemma dir_inv_src_frame:
  assumes "dir_inv sent a b w" and "sent n \<subseteq> insert f (sent (ch_next a))" and "wire_ok {f} w"
  shows "dir_inv sent (a\<lparr>ch_next := n\<rparr>) b w"
  using assms wire_ok_insert [OF assms(2,3)] by (simp add: dir_inv_def)

lemma dir_inv_dst_frame:
  assumes "dir_inv sent b a v" and "sent n \<subseteq> insert f (sent (ch_next a))" and "acks_ok {f} v (unat (rc_peerSeq a))"
  shows "dir_inv sent b (a\<lparr>ch_next := n\<rparr>) v"
  using assms acks_ok_insert [OF assms(2,3)] by (simp add: dir_inv_def)

lemma dir_inv_timeout [simp]:
  "dir_inv sent (a\<lparr>rc_timeout := t\<rparr>) b w = dir_inv sent a b w" "dir_inv sent b (a\<lparr>rc_timeout := t\<rparr>) w = dir_inv sent b a w"
  by (simp_all add: dir_inv_def)

lemma write_src:
  assumes "dir_inv sent a b w" and "small_packet p" and "ReliableChannel_writePacket a p = (r, c)"
  shows "dir_inv sent c b (w @ (if r = 1 then [view p] else []))"
proof (cases "rc_inFlight a")
  case None
  with assms(3) have "r = 1" and c: "c = a\<lparr>rc_inFlight := Some p\<rparr>"
    by (simp_all add: ReliableChannel_writePacket_def)
  moreover have "length w = unat (rc_localSeq a)"
    using assms(1) None by (simp add: dir_inv_def sent_ok_def)
  moreover from this have "view p = (w @ [view p]) ! unat (rc_localSeq a)"
    by (metis nth_append_length)
  ultimately show ?thesis
    using assms(1,2) by (simp add: dir_inv_def wire_ok_snoc_write recv_ok_snoc acks_ok_mono [OF _ order_refl])
next
  case (Some q)
  with assms show ?thesis
    by (simp add: ReliableChannel_writePacket_def)
qed

lemma write_dst: "ReliableChannel_writePacket a p = (r, c) \<Longrightarrow> dir_inv sent b c v = dir_inv sent b a v"
  by (rule dir_inv_dst_cong) (auto simp: ReliableChannel_writePacket_def split: if_splits)

lemma recv_src_ack:
  assumes inv: "dir_inv sent a b w" and f: "view p \<in> sent (ch_next b)" "frame_flags (view p) = ACK"
    and seq: "rc_localSeq a = header_seq (frame_header (view p))" and bound: "length w < 2 ^ 32"
  shows "dir_inv sent (raise_signal CanSend
      (a\<lparr>rc_localSeq := rc_localSeq a + 1, rc_inFlight := None, rc_timeout := False\<rparr>)) b w"
proof -
  have L: "unat (rc_localSeq a) < length w" "unat (rc_localSeq a) \<le> unat (rc_peerSeq b)"
    using inv f seq by (auto simp: dir_inv_def acks_ok_def)
  then have len: "length w = Suc (unat (rc_localSeq a))"
    using inv sent_ok_inFlight [of a w] by (auto simp: dir_inv_def sent_ok_def)
  then have "unat (rc_localSeq a + 1) = Suc (unat (rc_localSeq a))"
    using bound by (intro unat_Suc_no_wrap) simp
  with inv L(2) len show ?thesis
    by (simp add: dir_inv_def recv_ok_acked)
qed

context wire
begin

lemma timer_inv:
  assumes "dir_inv sent a b w" and "dir_inv sent b a v" and "onTimeout E a = (r, c)"
  shows "dir_inv sent c b w" and "dir_inv sent b c v"
proof -
  have "dir_inv sent c b w \<and> dir_inv sent b c v"
  proof (cases "rc_inFlight a")
    case None
    with assms show ?thesis by (simp add: onTimeout_idle)
  next
    case (Some p)
    let ?f = "data_frame (ch_cid a) (rc_localSeq a) (view p)"
    have p: "small_packet p" "wire_ok {?f} w"
      using assms(1) Some by (simp_all add: dir_inv_def sent_ok_def wire_ok_def)
    from onTimeout_sent [OF assms(3) Some p(1)] obtain n t where "c = a\<lparr>ch_next := n, rc_timeout := t\<rparr>"
      and n: "sent n \<subseteq> insert ?f (sent (ch_next a))" by blast
    with dir_inv_src_frame [OF assms(1) n p(2)] dir_inv_dst_frame [OF assms(2) n] show ?thesis by simp
  qed
  then show "dir_inv sent c b w" "dir_inv sent b c v" by auto
qed

lemma recv_src:
  assumes inv: "dir_inv sent a b w" and wire: "wire_ok (sent (ch_next b)) v" and p: "wf_packet p"
    and f: "view p \<in> sent (ch_next b)" and bound: "length w < 2 ^ 32"
    and rd: "ReliableChannel_readPacket E a p = (r, c)"
  shows "dir_inv sent c b w"
proof -
  note fr = wire_ok_frameD [OF wire f]
  consider "frame_flags (view p) = ACK" | "frame_flags (view p) = 0"
    using fr(2) by blast
  then show ?thesis
  proof cases
    case 1
    with rd inv readPacket_ack [OF p fr(1) 1, of E a] recv_src_ack [OF inv f 1 _ bound]
    show ?thesis by (auto split: if_splits)
  next
    case 2
    let ?k = "header_seq (frame_header (view p))"
    let ?a = "if rc_peerSeq a < ?k then raise_signal (Receive (Packet_skip p Reliable_size)) (a\<lparr>rc_peerSeq := ?k\<rparr>) else a"
    from readPacket_data_sent [OF rd p fr(1) 2 refl] obtain n where c: "c = ?a\<lparr>ch_next := n\<rparr>"
      and n: "sent n \<subseteq> insert (ack_frame (ch_cid a) ?k) (sent (ch_next a))" by blast
    have "dir_inv sent ?a b w" using inv by (simp add: dir_inv_def)
    from dir_inv_src_frame [OF this, of n "ack_frame (ch_cid a) ?k"] n c show ?thesis by simp
  qed
qed

lemma recv_dst_data:
  assumes inv: "dir_inv sent b a v" and p: "wf_packet p" and f: "view p \<in> sent (ch_next b)"
    and flags: "frame_flags (view p) = 0"
    and rd: "ReliableChannel_readPacket E a p = (r, c)"
  shows "dir_inv sent b c v"
proof -
  let ?h = "header_seq (frame_header (view p))" and ?P = "unat (rc_peerSeq a)"
  let ?a = "if rc_peerSeq a < ?h then raise_signal (Receive (Packet_skip p Reliable_size)) (a\<lparr>rc_peerSeq := ?h\<rparr>) else a"
  have wire: "wire_ok (sent (ch_next b)) v" and sent: "sent_ok b v"
    and acks: "acks_ok (sent (ch_next a)) v ?P" and recv: "recv_ok (unat (rc_localSeq b)) v ?P (received a)"
    using inv by (simp_all add: dir_inv_def)
  note fr = wire_ok_frameD [OF wire f]
  have k: "unat ?h < length v" "drop 6 (view p) = v ! unat ?h" "unat ?h \<le> unat (rc_localSeq b)"
    using fr(3) [OF flags] sent_okD [OF sent] by auto
  have a: "dir_inv sent b ?a v \<and> unat ?h \<le> unat (rc_peerSeq ?a)"
  proof (cases "rc_peerSeq a < ?h")
    case True
    then have lt: "?P < unat ?h" by (simp add: word_less_nat_alt)
    have "view (Packet_skip p Reliable_size) = v ! unat ?h"
      using k(2) p by (simp add: view_simps Reliable_size_def)
    with True recv_ok_deliver [OF recv lt k(3,1)] acks_ok_mono [OF acks, of "unat ?h" "[]"] lt wire sent
    show ?thesis by (simp add: dir_inv_def)
  next
    case False
    with inv show ?thesis by (simp add: word_less_nat_alt not_less)
  qed
  from readPacket_data_sent [OF rd p fr(1) flags refl] obtain n where c: "c = ?a\<lparr>ch_next := n\<rparr>"
    and n: "sent n \<subseteq> insert (ack_frame (ch_cid a) ?h) (sent (ch_next ?a))" by auto
  have "acks_ok {ack_frame (ch_cid a) ?h} v (unat (rc_peerSeq ?a))"
    using a k(1) by (simp add: acks_ok_def)
  with dir_inv_dst_frame [OF conjunct1 [OF a] n] c show ?thesis by simp
qed

lemma recv_dst:
  assumes inv: "dir_inv sent b a v" and p: "wf_packet p" and f: "view p \<in> sent (ch_next b)"
    and rd: "ReliableChannel_readPacket E a p = (r, c)"
  shows "dir_inv sent b c v"
proof (cases "frame_flags (view p) = 0")
  case True
  with recv_dst_data [OF inv p f _ rd] show ?thesis by blast
next
  case False
  have wire: "wire_ok (sent (ch_next b)) v" using inv by (simp add: dir_inv_def)
  note fr = wire_ok_frameD [OF wire f]
  from False fr(2) have "frame_flags (view p) = ACK" by blast
  from readPacket_ack [OF p fr(1) this, of E a] rd
  have "ch_next c = ch_next a" "rc_peerSeq c = rc_peerSeq a" "received c = received a"
    by (auto split: if_splits)
  then have "dir_inv sent b c v = dir_inv sent b a v" by (rule dir_inv_dst_cong)
  with inv show ?thesis by simp
qed

end

section \<open>The invariant of the pair\<close>

definition pair_inv :: "('n \<Rightarrow> byte list set) \<Rightarrow> 'n sys \<Rightarrow> bool" where
  "pair_inv sent s \<longleftrightarrow> dir_inv sent (chA s) (chB s) (wroteA s) \<and> dir_inv sent (chB s) (chA s) (wroteB s)"

lemma pair_inv_swap: "pair_inv sent (swap s) = pair_inv sent s"
  by (auto simp: pair_inv_def)

lemma pair_inv_init: "sent nA = {} \<Longrightarrow> sent nB = {} \<Longrightarrow> pair_inv sent (init_sys nA nB cidA cidB)"
  by (simp add: pair_inv_def init_sys_def ReliableChannel_new_def dir_inv_def sent_ok_def wire_ok_def
      acks_ok_def recv_ok_def received_def)

lemma a_step_wrote: "a_step E sent s t \<Longrightarrow> length (wroteA s) \<le> length (wroteA t) \<and> wroteB t = wroteB s"
  by (induction rule: a_step.induct) auto

lemma net_step_wrote:
  "net_step EA EB sent s t \<Longrightarrow> length (wroteA s) \<le> length (wroteA t) \<and> length (wroteB s) \<le> length (wroteB t)"
  by (auto elim!: net_stepE dest: a_step_wrote)

context wire
begin

lemma a_step_inv:
  assumes "a_step E sent s t" and "pair_inv sent s" and "length (wroteA s) < 2 ^ 32"
  shows "pair_inv sent t"
  using assms
proof (induction rule: a_step.induct)
  case (app_write p s r c)
  then show ?case
    using write_src [of sent "chA s" "chB s" "wroteA s" p r c] write_dst [of "chA s" p r c sent "chB s" "wroteB s"]
    by (simp add: pair_inv_def)
next
  case (timer s r c)
  then show ?case
    using timer_inv [of "chA s" "chB s" "wroteA s" "wroteB s" r c] by (simp add: pair_inv_def)
next
  case (recv p s r c)
  then have "wire_ok (sent (ch_next (chB s))) (wroteB s)" by (simp add: pair_inv_def dir_inv_def)
  with recv show ?case
    using recv_src [of "chA s" "chB s" "wroteA s" "wroteB s" p r c] recv_dst [of "chB s" "chA s" "wroteB s" p r c]
    by (simp add: pair_inv_def)
qed

end

text \<open>Both ends, each over its own stream.\<close>

locale wires = A: wire EA sent + B: wire EB sent
  for EA EB :: "'n stream_env" and sent :: "'n \<Rightarrow> byte list set"
begin

lemma net_step_inv:
  assumes "net_step EA EB sent s t" and "pair_inv sent s" and "length (wroteA s) < 2 ^ 32" and "length (wroteB s) < 2 ^ 32"
  shows "pair_inv sent t"
  using assms
proof cases
  case A
  with assms show ?thesis by (auto intro: A.a_step_inv)
next
  case (B u)
  then have "pair_inv sent u"
    using assms B.a_step_inv [of "swap s" u] by (simp add: pair_inv_swap)
  with B show ?thesis by (simp add: pair_inv_swap)
qed

lemma net_steps_inv:
  assumes "(net_step EA EB sent)\<^sup>*\<^sup>* s t" and "pair_inv sent s" and "length (wroteA t) < 2 ^ 32" and "length (wroteB t) < 2 ^ 32"
  shows "pair_inv sent t"
  using assms
proof (induction rule: rtranclp_induct)
  case (step t u)
  then show ?case
    using net_step_wrote [of EA EB sent t u] net_step_inv [of t u] by force
qed

end

lemma wires_carries: "carries EA sent \<Longrightarrow> carries EB sent \<Longrightarrow> wires EA EB sent"
  by (intro wires.intro wire_carries)

text \<open>
  A wire without errors: the stream below is the list of all frames written to it; its \<^verbatim>\<open>write\<close> always
  succeeds.
\<close>

definition net_env :: "byte list list stream_env" where
  "net_env = \<lparr>se_write = (\<lambda>n p. (Ret True, n @ [view p])), se_addr = 0, se_block = (\<lambda>n. replicate n 0)\<rparr>"

interpretation net: wires net_env net_env set
  by unfold_locales (auto simp: net_env_def observes_def)

end
