(* ===== verification/Reliable_Pair.thy ===== *)
theory Reliable_Pair
  imports Reliable_Protocol
begin

text \<open>
  What two reliable channels guarantee: delivery in order and at most once over any stream and network, and what
  happens to the first message, at the end of the sequence space and under the event loop.
\<close>

section \<open>Runs in which messages get through\<close>

text \<open>
  Runs that the examples below use. The steps of the pair let the timer callback run at any time; under the
  program's event loop it does not run at all (last section), so these are runs of the protocol and not of the
  program as it is.

  A stream whose writes return, and on which a packet that is written again and again is put on the wire some
  time.
\<close>

definition repeat_write :: "'n stream_env \<Rightarrow> packet \<Rightarrow> nat \<Rightarrow> 'n \<Rightarrow> 'n" where
  "repeat_write E p k n = ((\<lambda>n. snd (se_write E n p)) ^^ k) n"

definition gets_through :: "'n stream_env \<Rightarrow> ('n \<Rightarrow> byte list set) \<Rightarrow> bool" where
  "gets_through E sent \<longleftrightarrow> (\<forall>n p. is_ret (fst (se_write E n p))) \<and> (\<forall>n p. \<exists>k. view p \<in> sent (repeat_write E p k n))"

lemma repeat_write_simps [simp]:
  "repeat_write E p 0 n = n" "repeat_write E p (Suc k) n = snd (se_write E (repeat_write E p k n) p)"
  by (simp_all add: repeat_write_def)

text \<open>A packet that shows a given frame, as the layer below hands it up.\<close>

definition frame_packet :: "byte list \<Rightarrow> packet" where
  "frame_packet f = Packet_new 0 f 0 (of_nat (length f))"

lemma frame_packet: "length f < 2 ^ 63 \<Longrightarrow> wf_packet (frame_packet f) \<and> view (frame_packet f) = f"
  by (simp add: frame_packet_def wf_intros view_simps)

lemma deliver_ack:
  "ReliableChannel_readPacket E a (frame_packet (ack_frame cid (rc_localSeq a))) =
     (Ret (), raise_signal CanSend
       (a\<lparr>rc_localSeq := rc_localSeq a + 1, rc_inFlight := None, rc_timeout := False\<rparr>))"
proof -
  have "length (ack_frame cid (rc_localSeq a)) < 2 ^ 63"
    by (simp add: ack_frame_def)
  from frame_packet [OF this] readPacket_ack [of "frame_packet (ack_frame cid (rc_localSeq a))" E a]
  show ?thesis by simp
qed

text \<open>
  The steps of a run in which packets arrive as they were sent: a packet that is read is the only one in its block and
  shorter than \<open>N\<close>.
\<close>

inductive frame_step :: "'n stream_env \<Rightarrow> ('n \<Rightarrow> byte list set) \<Rightarrow> nat \<Rightarrow> 'n sys \<Rightarrow> 'n sys \<Rightarrow> bool" for E sent N where
  frame_write: "small_packet p \<Longrightarrow> ReliableChannel_writePacket (chA s) p = (r, c) \<Longrightarrow>
     frame_step E sent N s (s\<lparr>chA := c, wroteA := wroteA s @ (if r = 1 then [view p] else [])\<rparr>)"
| frame_timer: "onTimeout E (chA s) = (r, c) \<Longrightarrow> frame_step E sent N s (s\<lparr>chA := c\<rparr>)"
| frame_recv: "length f < N \<Longrightarrow> f \<in> sent (ch_next (chB s)) \<Longrightarrow>
     ReliableChannel_readPacket E (chA s) (frame_packet f) = (r, c) \<Longrightarrow> frame_step E sent N s (s\<lparr>chA := c\<rparr>)"

inductive frames_step :: "'n stream_env \<Rightarrow> 'n stream_env \<Rightarrow> ('n \<Rightarrow> byte list set) \<Rightarrow> nat \<Rightarrow> 'n sys \<Rightarrow> 'n sys \<Rightarrow> bool"
  for EA EB sent N where
  frames_A: "frame_step EA sent N s t \<Longrightarrow> frames_step EA EB sent N s t"
| frames_B: "frame_step EB sent N (swap s) t \<Longrightarrow> frames_step EA EB sent N s (swap t)"

lemma frame_step_a: "frame_step E sent N s t \<Longrightarrow> N \<le> 2 ^ 63 \<Longrightarrow> a_step E sent s t"
proof (induction rule: frame_step.induct)
  case (frame_recv f s r c)
  then have "wf_packet (frame_packet f)" "view (frame_packet f) = f" using frame_packet [of f] by auto
  with frame_recv show ?case by (intro a_step.recv) auto
qed (rule a_step.app_write a_step.timer; assumption)+

lemma frames_step_net: "frames_step EA EB sent N s t \<Longrightarrow> N \<le> 2 ^ 63 \<Longrightarrow> net_step EA EB sent s t"
  by (induction rule: frames_step.induct) (blast intro: net_step.intros frame_step_a)+

lemma frames_steps_net: "(frames_step EA EB sent N)\<^sup>*\<^sup>* s t \<Longrightarrow> N \<le> 2 ^ 63 \<Longrightarrow> (net_step EA EB sent)\<^sup>*\<^sup>* s t"
  by (metis (mono_tags) frames_step_net mono_rtranclp)

lemma frame_steps_A: "(frame_step EA sent N)\<^sup>*\<^sup>* s t \<Longrightarrow> (frames_step EA EB sent N)\<^sup>*\<^sup>* s t"
  by (metis (mono_tags) frames_A mono_rtranclp)

lemma frame_steps_B: "(frame_step EB sent N)\<^sup>*\<^sup>* s t \<Longrightarrow> (frames_step EA EB sent N)\<^sup>*\<^sup>* (swap s) (swap t)"
proof (induction rule: rtranclp_induct)
  case (step t u)
  then have "frames_step EA EB sent N (swap t) (swap u)" by (intro frames_B) simp
  with step.IH show ?case by (rule rtranclp.rtrancl_into_rtrancl)
qed simp

context wire
begin

definition data_packet :: "'n reliable \<Rightarrow> packet \<Rightarrow> packet" where
  "data_packet c p = framed_packet [rel_packet (ReliablePacketHeader_new (ch_cid c) 0 (rc_localSeq c)), p]"

definition ack_packet :: "'n reliable \<Rightarrow> u32 \<Rightarrow> packet" where
  "ack_packet c k = framed_packet [rel_packet (ReliablePacketHeader_new (ch_cid c) ACK k)]"

lemma view_data_packet: "small_packet p \<Longrightarrow> view (data_packet c p) = data_frame (ch_cid c) (rc_localSeq c) (view p)"
  by (simp add: data_packet_def small_packet_def view_framed_packet wf_intros view_simps data_frame_def)

lemma view_ack_packet: "view (ack_packet c k) = ack_frame (ch_cid c) k"
  by (simp add: ack_packet_def view_framed_packet wf_intros view_simps ack_frame_def)

lemma onTimeout_eq:
  assumes "gets_through E sent" and "rc_inFlight c = Some p" and "small_packet p"
  shows "onTimeout E c = (Ret (), c\<lparr>ch_next := snd (se_write E (ch_next c) (data_packet c p)), rc_timeout := True\<rparr>)"
proof -
  have "is_ret (fst (se_write E (ch_next c) (data_packet c p)))" using assms(1) by (simp add: gets_through_def)
  with assms(2,3) show ?thesis
    by (cases "se_write E (ch_next c) (data_packet c p)"; cases "fst (se_write E (ch_next c) (data_packet c p))")
      (simp_all add: onTimeout_def transmitQueue_def transmitPacket_def small_packet_def next_write_eq wf_intros data_packet_def)
qed

text \<open>The timer runs until the frame is on the wire.\<close>

lemma timer_repeated:
  assumes "gets_through E sent" and "rc_inFlight (chA s) = Some p" and "small_packet p"
  shows "\<exists>t. (frame_step E sent N)\<^sup>*\<^sup>* s
    (s\<lparr>chA := (chA s)\<lparr>ch_next := repeat_write E (data_packet (chA s) p) k (ch_next (chA s)), rc_timeout := t\<rparr>\<rparr>)"
proof (induction k)
  case 0
  show ?case by (rule exI [of _ "rc_timeout (chA s)"]) simp
next
  case (Suc k)
  let ?q = "data_packet (chA s) p"
  let ?s = "\<lambda>k t. s\<lparr>chA := (chA s)\<lparr>ch_next := repeat_write E ?q k (ch_next (chA s)), rc_timeout := t\<rparr>\<rparr>"
  obtain t where t: "(frame_step E sent N)\<^sup>*\<^sup>* s (?s k t)" using Suc.IH by blast
  have "data_packet (chA (?s k t)) p = ?q" by (simp add: data_packet_def)
  then have "onTimeout E (chA (?s k t)) = (Ret (), chA (?s (Suc k) True))"
    using onTimeout_eq [of "chA (?s k t)" p] assms by simp
  then have "frame_step E sent N (?s k t) (?s (Suc k) True)"
    using frame_timer [of E "?s k t" "Ret ()" "chA (?s (Suc k) True)" sent] by simp
  with t show ?case by (blast intro: rtranclp.rtrancl_into_rtrancl)
qed

lemma timer_steps:
  assumes "gets_through E sent" and "rc_inFlight (chA s) = Some p" and "small_packet p"
  obtains n t where "(frame_step E sent N)\<^sup>*\<^sup>* s (s\<lparr>chA := (chA s)\<lparr>ch_next := n, rc_timeout := t\<rparr>\<rparr>)"
    and "data_frame (ch_cid (chA s)) (rc_localSeq (chA s)) (view p) \<in> sent n"
proof -
  obtain k where "view (data_packet (chA s) p) \<in> sent (repeat_write E (data_packet (chA s) p) k (ch_next (chA s)))"
    using assms(1) unfolding gets_through_def by blast
  with timer_repeated [OF assms, where k = k and N = N] assms(3) that show thesis by (auto simp: view_data_packet)
qed

text \<open>The other side reads the frame until its acknowledgement is on the wire.\<close>

lemma readPacket_frame:
  assumes "gets_through E sent" and "f = data_frame cid k x" and "length f < 2 ^ 63"
  shows "ReliableChannel_readPacket E c (frame_packet f) = (Ret (),
    (if rc_peerSeq c < k then raise_signal (Receive (Packet_skip (frame_packet f) Reliable_size)) (c\<lparr>rc_peerSeq := k\<rparr>) else c)
      \<lparr>ch_next := snd (se_write E (ch_next c) (ack_packet c k))\<rparr>)"
proof -
  have p: "wf_packet (frame_packet f)" "view (frame_packet f) = f"
    using frame_packet [OF assms(3)] by auto
  have "is_ret (fst (se_write E (ch_next c) (ack_packet c k)))" using assms(1) by (simp add: gets_through_def)
  with readPacket_data [OF p(1), of E c] p(2) assms(2) show ?thesis
    by (cases "se_write E (ch_next c) (ack_packet c k)"; cases "fst (se_write E (ch_next c) (ack_packet c k))")
      (simp_all add: Let_def next_write_eq wf_intros ack_packet_def)
qed

lemma read_repeated:
  assumes "gets_through E sent" and "f = data_frame cid k x" and "length f < 2 ^ 63" and "length f < N" and "f \<in> sent (ch_next (chB s))"
    and "k \<le> rc_peerSeq (chA s)"
  shows "(frame_step E sent N)\<^sup>*\<^sup>* s (s\<lparr>chA := (chA s)\<lparr>ch_next := repeat_write E (ack_packet (chA s) k) m (ch_next (chA s))\<rparr>\<rparr>)"
proof (induction m)
  case (Suc m)
  let ?s = "\<lambda>m. s\<lparr>chA := (chA s)\<lparr>ch_next := repeat_write E (ack_packet (chA s) k) m (ch_next (chA s))\<rparr>\<rparr>"
  have "ack_packet (chA (?s m)) k = ack_packet (chA s) k" by (simp add: ack_packet_def)
  then have "ReliableChannel_readPacket E (chA (?s m)) (frame_packet f) = (Ret (), chA (?s (Suc m)))"
    using readPacket_frame [OF assms(1-3), of "chA (?s m)"] assms(6) by simp
  then have "frame_step E sent N (?s m) (?s (Suc m))"
    using frame_recv [OF assms(4), of sent "?s m" E "Ret ()"] assms(5) by simp
  with Suc.IH show ?case by (rule rtranclp.rtrancl_into_rtrancl)
qed simp

lemma ack_steps:
  assumes "gets_through E sent" and "f = data_frame cid k x" and "length f < 2 ^ 63" and "length f < N" and "f \<in> sent (ch_next (chB s))"
  obtains a where "(frame_step E sent N)\<^sup>*\<^sup>* s (s\<lparr>chA := a\<rparr>)" and "ack_frame (ch_cid (chA s)) k \<in> sent (ch_next a)"
    and "rc_peerSeq a = max (rc_peerSeq (chA s)) k"
proof -
  obtain a where a: "ReliableChannel_readPacket E (chA s) (frame_packet f) = (Ret (), a)"
    "ch_cid a = ch_cid (chA s)" "rc_peerSeq a = max (rc_peerSeq (chA s)) k"
    using readPacket_frame [OF assms(1-3), of "chA s"] by (cases "rc_peerSeq (chA s) < k") (auto simp: max_absorb1 max_absorb2 not_less)
  let ?s = "s\<lparr>chA := a\<rparr>"
  have first: "frame_step E sent N s ?s" by (rule frame_recv [where sent = sent, OF assms(4,5) a(1)])
  obtain m where m: "view (ack_packet a k) \<in> sent (repeat_write E (ack_packet a k) m (ch_next a))"
    using assms(1) unfolding gets_through_def by blast
  let ?a = "a\<lparr>ch_next := repeat_write E (ack_packet a k) m (ch_next a)\<rparr>"
  have "(frame_step E sent N)\<^sup>*\<^sup>* ?s (s\<lparr>chA := ?a\<rparr>)"
    using read_repeated [OF assms(1-4), of ?s m] assms(5) a(3) by simp
  with first have "(frame_step E sent N)\<^sup>*\<^sup>* s (s\<lparr>chA := ?a\<rparr>)" by (rule converse_rtranclp_into_rtranclp)
  then show thesis by (rule that) (use m a(2,3) in \<open>simp_all add: view_ack_packet\<close>)
qed

end

lemma swap_upd: "swap ((swap s)\<lparr>chA := b\<rparr>) = s\<lparr>chB := b\<rparr>"
  by (simp add: swap_def)

context wires
begin

lemma progress_round:
  assumes through: "gets_through EA sent" "gets_through EB sent" and inv: "pair_inv sent s" and fl: "rc_inFlight (chA s) = Some p"
    and N: "length (view p) + 6 < N"
  shows "\<exists>t. (frames_step EA EB sent N)\<^sup>*\<^sup>* s t \<and> rc_inFlight (chA t) = None \<and> rc_localSeq (chA t) = rc_localSeq (chA s) + 1
    \<and> rc_peerSeq (chB t) = rc_localSeq (chA s) \<and> ch_raised (chA t) = ch_raised (chA s) @ [CanSend]
    \<and> wroteA t = wroteA s \<and> wroteB t = wroteB s"
proof -
  let ?L = "rc_localSeq (chA s)" and ?a = "chA s"
  let ?f = "data_frame (ch_cid ?a) ?L (view p)"
  have small: "small_packet p" and P: "rc_peerSeq (chB s) \<le> ?L"
    using inv fl by (auto simp: pair_inv_def dir_inv_def sent_ok_def recv_ok_def word_le_nat_alt)
  obtain n t where s1: "(frame_step EA sent N)\<^sup>*\<^sup>* s (s\<lparr>chA := ?a\<lparr>ch_next := n, rc_timeout := t\<rparr>\<rparr>)" and f: "?f \<in> sent n"
    using A.timer_steps [OF through(1) fl small] by blast
  let ?a1 = "?a\<lparr>ch_next := n, rc_timeout := t\<rparr>"
  have len: "length ?f < 2 ^ 63"
    using small by (simp add: data_frame_def small_packet_def length_view)
  have lenN: "length ?f < N" "6 < N" using N by (simp_all add: data_frame_def)
  have "?f \<in> sent (ch_next (chB (swap (s\<lparr>chA := ?a1\<rparr>))))" using f by simp
  from B.ack_steps [OF through(2) refl len lenN(1) this] obtain b where
    s2: "(frame_step EB sent N)\<^sup>*\<^sup>* (swap (s\<lparr>chA := ?a1\<rparr>)) ((swap (s\<lparr>chA := ?a1\<rparr>))\<lparr>chA := b\<rparr>)"
    and b: "ack_frame (ch_cid (chB s)) ?L \<in> sent (ch_next b)" "rc_peerSeq b = max (rc_peerSeq (chB s)) ?L" by auto
  let ?a3 = "raise_signal CanSend (?a1\<lparr>rc_localSeq := ?L + 1, rc_inFlight := None, rc_timeout := False\<rparr>)"
  have "frame_step EA sent N (s\<lparr>chA := ?a1, chB := b\<rparr>) (s\<lparr>chA := ?a1, chB := b, chA := ?a3\<rparr>)"
    by (rule frame_recv [where f = "ack_frame (ch_cid (chB s)) ?L"])
      (use b(1) lenN(2) deliver_ack [of EA ?a1 "ch_cid (chB s)"] in \<open>simp_all add: ack_frame_def\<close>)
  then have s3: "frames_step EA EB sent N (s\<lparr>chA := ?a1, chB := b\<rparr>) (s\<lparr>chA := ?a1, chB := b, chA := ?a3\<rparr>)" by (rule frames_A)
  have "(frames_step EA EB sent N)\<^sup>*\<^sup>* s (s\<lparr>chA := ?a1\<rparr>)" using s1 by (rule frame_steps_A)
  also have "(frames_step EA EB sent N)\<^sup>*\<^sup>* (s\<lparr>chA := ?a1\<rparr>) (s\<lparr>chA := ?a1, chB := b\<rparr>)"
    using frame_steps_B [OF s2, of EA] by (simp add: swap_upd)
  finally have "(frames_step EA EB sent N)\<^sup>*\<^sup>* s (s\<lparr>chA := ?a1, chB := b, chA := ?a3\<rparr>)"
    using s3 by (rule rtranclp.rtrancl_into_rtrancl)
  moreover have "rc_peerSeq b = ?L" using b(2) P by simp
  ultimately show ?thesis
    by (intro exI [of _ "s\<lparr>chA := ?a1, chB := b, chA := ?a3\<rparr>"]) simp
qed

text \<open>A whole message: the application writes it and the round above completes it.\<close>

lemma send_round:
  assumes through: "gets_through EA sent" "gets_through EB sent" and inv: "pair_inv sent s"
    and idle: "rc_inFlight (chA s) = None" and p: "small_packet p" and bound: "length (wroteA s) < 2 ^ 32"
    and N: "length (view p) + 6 < N"
  shows "\<exists>t. (frames_step EA EB sent N)\<^sup>*\<^sup>* s t \<and> rc_inFlight (chA t) = None \<and> rc_localSeq (chA t) = rc_localSeq (chA s) + 1
    \<and> rc_peerSeq (chB t) = rc_localSeq (chA s) \<and> wroteA t = wroteA s @ [view p] \<and> wroteB t = wroteB s"
proof -
  let ?s = "s\<lparr>chA := (chA s)\<lparr>rc_inFlight := Some p\<rparr>, wroteA := wroteA s @ [view p]\<rparr>"
  have w: "frame_step EA sent N s ?s"
    using frame_write [OF p, of s 1 "(chA s)\<lparr>rc_inFlight := Some p\<rparr>" EA sent N] idle
    by (simp add: ReliableChannel_writePacket_def)
  have "a_step EA sent s ?s"
    using a_step.app_write [OF p, of s 1 "(chA s)\<lparr>rc_inFlight := Some p\<rparr>" EA sent] idle
    by (simp add: ReliableChannel_writePacket_def)
  then have "pair_inv sent ?s" by (rule A.a_step_inv [OF _ inv bound])
  from progress_round [OF through this, of p N] N obtain t where "(frames_step EA EB sent N)\<^sup>*\<^sup>* ?s t" "rc_inFlight (chA t) = None"
    "rc_localSeq (chA t) = rc_localSeq (chA s) + 1" "rc_peerSeq (chB t) = rc_localSeq (chA s)"
    "wroteA t = wroteA s @ [view p]" "wroteB t = wroteB s" by auto
  with frames_A [OF w] show ?thesis by (blast intro: converse_rtranclp_into_rtranclp)
qed

lemma two_rounds:
  assumes through: "gets_through EA sent" "gets_through EB sent" and init: "sent nA = {}" "sent nB = {}"
    and p: "small_packet p" "small_packet q" and N: "length (view p) + 6 < N" "length (view q) + 6 < N" "N \<le> 2 ^ 63"
  shows "\<exists>s. (frames_step EA EB sent N)\<^sup>*\<^sup>* (init_sys nA nB cidA cidB) s \<and> wroteA s = [view p, view q] \<and> wroteB s = []
     \<and> rc_localSeq (chA s) = 2 \<and> rc_peerSeq (chB s) = 1 \<and> rc_inFlight (chA s) = None"
proof -
  let ?i = "init_sys nA nB cidA cidB"
  have i: "rc_inFlight (chA ?i) = None" "rc_localSeq (chA ?i) = 0" "wroteA ?i = []" "wroteB ?i = []"
    by (simp_all add: init_sys_def ReliableChannel_new_def)
  have inv: "pair_inv sent ?i" using init by (rule pair_inv_init)
  from send_round [OF through inv i(1) p(1) _ N(1)] obtain t where t: "(frames_step EA EB sent N)\<^sup>*\<^sup>* ?i t" "rc_inFlight (chA t) = None"
    "rc_localSeq (chA t) = 1" "wroteA t = [view p]" "wroteB t = []" by (auto simp: i)
  have "pair_inv sent t" using net_steps_inv [OF frames_steps_net [OF t(1) N(3)] inv] t by simp
  from send_round [OF through this t(2) p(2) _ N(2)] t show ?thesis by (auto intro: rtranclp_trans)
qed

end

section \<open>A stream that refuses every other write\<close>

definition flaky_env :: "(bool \<times> byte list list) stream_env" where
  "flaky_env = \<lparr>se_write = (\<lambda>(up, fs) p. if up then (Ret True, (False, fs @ [view p])) else (Ret False, (True, fs))),
     se_addr = 0, se_block = (\<lambda>n. replicate n 0)\<rparr>"

definition flaky_sent :: "bool \<times> byte list list \<Rightarrow> byte list set" where
  "flaky_sent n = set (snd n)"

lemma flaky_carries: "carries flaky_env flaky_sent"
  by (auto simp: carries_def observes_def flaky_env_def flaky_sent_def)

lemma flaky_through: "gets_through flaky_env flaky_sent"
proof -
  have "\<exists>k. view p \<in> flaky_sent (repeat_write flaky_env p k (up, fs))" for up fs p
    by (rule exI [of _ "if up then 1 else 2"]) (simp add: flaky_env_def flaky_sent_def numeral_2_eq_2)
  then show ?thesis by (auto simp: gets_through_def flaky_env_def)
qed

interpretation flaky: wires flaky_env flaky_env flaky_sent
  by (rule wires_carries [OF flaky_carries flaky_carries])

abbreviation flaky_init :: "(bool \<times> byte list list) sys" where
  "flaky_init \<equiv> init_sys (False, []) (True, []) 1 1"

lemma flaky_init_inv: "pair_inv flaky_sent flaky_init"
  by (rule pair_inv_init) (simp_all add: flaky_sent_def)

lemma byte_packet: "small_packet (frame_packet [x]) \<and> view (frame_packet [x]) = [x]"
  using frame_packet [of "[x]"] by (simp add: small_packet_def) (simp add: frame_packet_def Packet_new_def)

lemma two_messages:
  "\<exists>s. (net_step flaky_env flaky_env flaky_sent)\<^sup>*\<^sup>* flaky_init s \<and> wroteA s = [[5], [6]] \<and> wroteB s = []
     \<and> rc_localSeq (chA s) = 2 \<and> rc_peerSeq (chB s) = 1 \<and> rc_inFlight (chA s) = None"
  using flaky.two_rounds [OF flaky_through flaky_through _ _ byte_packet [of 5, THEN conjunct1] byte_packet [of 6, THEN conjunct1],
      of "(False, [])" "(True, [])" 8 1 1] frames_steps_net [of flaky_env flaky_env flaky_sent 8 flaky_init]
  by (auto simp: byte_packet flaky_sent_def)

section \<open>Properties of the pair\<close>

lemma prefix_take_take: "m \<le> n \<Longrightarrow> prefix (take m xs) (take n xs)"
  using take_is_prefix [of m "take n xs"] by (simp add: min_def)

lemma prefix_tl_take: "m \<le> n \<Longrightarrow> prefix (tl (take m w)) (tl (take n w))"
  by (cases w; cases m; cases n) (simp_all add: prefix_take_take)

lemma prefix_tl_take_all: "prefix (tl (take m w)) (tl w)"
  by (cases w; cases m) (simp_all add: take_is_prefix)

lemma in_order:
  assumes "pair_inv sent s"
  shows "received (chB s) = tl (take (Suc (unat (rc_peerSeq (chB s)))) (wroteA s))
    \<and> prefix (received (chB s)) (tl (wroteA s))
    \<and> prefix (tl (take (unat (rc_localSeq (chA s))) (wroteA s))) (received (chB s))"
proof -
  have r: "received (chB s) = tl (take (Suc (unat (rc_peerSeq (chB s)))) (wroteA s))"
    and le: "unat (rc_localSeq (chA s)) \<le> Suc (unat (rc_peerSeq (chB s)))"
    using assms by (simp_all add: pair_inv_def dir_inv_def recv_ok_def)
  from prefix_tl_take [OF le, of "wroteA s"] prefix_tl_take_all [of "Suc (unat (rc_peerSeq (chB s)))" "wroteA s"]
  show ?thesis by (simp add: r)
qed

text \<open>
  C1. Delivery is in order and at most once: whatever the streams below answer to writes (success, refusal,
  exceptions), in every state the two endpoints can reach over a network that loses, repeats and reorders
  frames, while neither side has written $2^{32}$ messages, what B's application received is a prefix of what A's
  application wrote after its first message (precisely the messages numbered $1$ to B's \<^verbatim>\<open>peerSeq\<close>), and every
  message but the first that A was told is done is among them.
\<close>

theorem reliable_in_order:
  assumes "carries EA sent" and "carries EB sent" and "sent nA = {}" and "sent nB = {}"
    and "(net_step EA EB sent)\<^sup>*\<^sup>* (init_sys nA nB cidA cidB) s" and "length (wroteA s) < 2 ^ 32" and "length (wroteB s) < 2 ^ 32"
  shows "received (chB s) = tl (take (Suc (unat (rc_peerSeq (chB s)))) (wroteA s))
    \<and> prefix (received (chB s)) (tl (wroteA s))
    \<and> prefix (tl (take (unat (rc_localSeq (chA s))) (wroteA s))) (received (chB s))"
  by (rule in_order [OF wires.net_steps_inv [OF wires_carries [OF assms(1,2)] assms(5) pair_inv_init [where sent = sent, OF assms(3,4)] assms(6,7)]])

theorem reliable_in_order_witness:
  "\<exists>s. (net_step flaky_env flaky_env flaky_sent)\<^sup>*\<^sup>* flaky_init s \<and> wroteA s = [[5], [6]] \<and> received (chB s) = [[6]]"
proof -
  obtain s where s: "(net_step flaky_env flaky_env flaky_sent)\<^sup>*\<^sup>* flaky_init s" "wroteA s = [[5], [6]]" "wroteB s = []"
    "rc_peerSeq (chB s) = 1"
    using two_messages by blast
  from reliable_in_order [OF flaky_carries flaky_carries _ _ s(1)] s show ?thesis by (auto simp: flaky_sent_def)
qed

text \<open>
  The first message of a channel is acknowledged and thrown away: a fresh receiver that reads the
  data frame with sequence number $0$, which is what a fresh sender transmits, raises no \<^verbatim>\<open>receive\<close>
  signal and only answers with an acknowledgement.
\<close>

theorem first_message_lost:
  assumes "wf_packet q" and "view q = data_frame cid (rc_localSeq (ReliableChannel_new nx cid)) payload"
    and "c = ReliableChannel_new ny cid"
  shows "ReliableChannel_readPacket E c q
    = (case next_write E c [rel_packet (ReliablePacketHeader_new cid ACK 0)] of (r, c') \<Rightarrow> (map_outcome_val (\<lambda>_. ()) r, c'))"
  using readPacket_data [OF assms(1), of E c] assms(2,3)
  by (simp add: ReliableChannel_new_def Let_def)

text \<open>
  C36. The sequence space is not reused: once \<^verbatim>\<open>peerSeq\<close> has reached $2^{32} - 1$, no frame whatsoever
  makes the channel deliver again, although data frames are still acknowledged, while the sender's
  number wraps to $0$ when the last one is acknowledged.
\<close>

theorem sequence_exhausted:
  assumes "carries E sent" and "rc_peerSeq c = - 1" and "wf_packet q" and "6 \<le> length (view q)"
    and "ReliableChannel_readPacket E c q = (r, c')"
  shows "received c' = received c \<and> rc_peerSeq c' = - 1
    \<and> (frame_flags (view q) = ACK \<and> rc_localSeq c = - 1 \<and> header_seq (frame_header (view q)) = - 1
        \<longrightarrow> rc_localSeq c' = 0)"
proof -
  have max: "\<not> rc_peerSeq c < k" for k
    using assms(2) by (simp add: word_order.not_eq_extremum)
  have "\<exists>n. x = c\<lparr>ch_next := n\<rparr>" if "next_write E c [rel_packet (ReliablePacketHeader_new cid ACK k)] = (y, x)" for cid k x y
    using wire.ack_write_sent [OF wire_carries [OF assms(1)] that] by blast
  with packet_header [OF assms(3,4)] assms(2,5) max show ?thesis
    by (fastforce simp: ReliableChannel_readPacket_def Let_def Reliable_size_def split: if_splits prod.splits)
qed

text \<open>A channel at the end of the sequence space reads the data frame numbered $0$ and then the last acknowledgement.\<close>

theorem sequence_exhausted_witness:
  "let c = (ReliableChannel_new (True, []) 1)\<lparr>rc_peerSeq := - 1, rc_localSeq := - 1, rc_inFlight := Some (frame_packet [9])\<rparr>
   in received (snd (ReliableChannel_readPacket flaky_env c (frame_packet (data_frame 1 0 [5])))) = []
      \<and> rc_localSeq (snd (ReliableChannel_readPacket flaky_env c (frame_packet (ack_frame 1 (- 1))))) = 0"
proof -
  let ?c = "(ReliableChannel_new (True, []) 1)\<lparr>rc_peerSeq := - 1, rc_localSeq := - 1, rc_inFlight := Some (frame_packet [9])\<rparr>"
  have f: "wf_packet (frame_packet (data_frame 1 0 [5]))" "view (frame_packet (data_frame 1 0 [5])) = data_frame 1 0 [5]"
    and a: "wf_packet (frame_packet (ack_frame 1 (- 1)))" "view (frame_packet (ack_frame 1 (- 1))) = ack_frame 1 (- 1)"
    using frame_packet [of "data_frame 1 0 [5]"] frame_packet [of "ack_frame 1 (- 1)"]
    by (simp_all add: data_frame_def ack_frame_def)
  have c: "received ?c = []" "rc_peerSeq ?c = - 1" "rc_localSeq ?c = - 1" by (simp_all add: ReliableChannel_new_def received_def)
  obtain r d where rd: "ReliableChannel_readPacket flaky_env ?c (frame_packet (data_frame 1 0 [5])) = (r, d)" by fastforce
  obtain q e where qe: "ReliableChannel_readPacket flaky_env ?c (frame_packet (ack_frame 1 (- 1))) = (q, e)" by fastforce
  have "received d = []"
    using sequence_exhausted [OF flaky_carries c(2) f(1) _ rd] f(2) c(1) by simp
  moreover have "rc_localSeq e = 0"
    using sequence_exhausted [OF flaky_carries c(2) a(1) _ qe] a(2) c(3) by simp
  ultimately show ?thesis by (simp only: Let_def rd qe snd_conv)
qed

section \<open>Under the event loop\<close>

text \<open>
  A single channel as the program runs it: the application writes, packets arrive, and the timer
  callback runs only while the timer is active; a one-shot timer is inactive when it fires.
\<close>

inductive loop_step :: "'n stream_env \<Rightarrow> 'n reliable \<Rightarrow> 'n reliable \<Rightarrow> bool" for E where
  loop_write: "loop_step E c (snd (ReliableChannel_writePacket c p))"
| loop_read: "loop_step E c (snd (ReliableChannel_readPacket E c p))"
| loop_timer: "rc_timeout c \<Longrightarrow> loop_step E c (snd (onTimeout E (c\<lparr>rc_timeout := False\<rparr>)))"

inductive loop_reach :: "'n stream_env \<Rightarrow> 'n \<Rightarrow> byte \<Rightarrow> 'n reliable \<Rightarrow> bool" for E nx cid where
  loop_start: "loop_reach E nx cid (ReliableChannel_new nx cid)"
| loop_next: "loop_reach E nx cid c \<Longrightarrow> loop_step E c d \<Longrightarrow> loop_reach E nx cid d"

definition only_acks :: "('n \<Rightarrow> byte list set) \<Rightarrow> 'n reliable \<Rightarrow> bool" where
  "only_acks sent c \<longleftrightarrow> \<not> rc_timeout c \<and> (\<forall>f\<in>sent (ch_next c). frame_flags f = ACK)"

context wire
begin

lemma only_acks_read:
  assumes "only_acks sent c"
  shows "only_acks sent (snd (ReliableChannel_readPacket E c p))"
proof -
  have "only_acks sent d'" if d: "next_write E d [rel_packet (ReliablePacketHeader_new cid ACK k)] = (x, d')" "only_acks sent d"
    for d d' :: "'n reliable" and cid k x
    using ack_write_sent [OF d(1)] d(2) by (force simp: only_acks_def)
  then show ?thesis
    using assms by (auto simp: ReliableChannel_readPacket_def Let_def only_acks_def split: prod.split)
qed

lemma only_acks_step: "loop_step E c d \<Longrightarrow> only_acks sent c \<Longrightarrow> only_acks sent d"
  by (induction rule: loop_step.induct) (auto simp: only_acks_read, auto simp: only_acks_def ReliableChannel_writePacket_def)

lemma only_acks_reach: "loop_reach E nx cid c \<Longrightarrow> sent nx = {} \<Longrightarrow> only_acks sent c"
proof (induction rule: loop_reach.induct)
  case loop_start
  then show ?case by (simp add: only_acks_def ReliableChannel_new_def)
next
  case (loop_next c d)
  then show ?case by (blast intro: only_acks_step)
qed

end

text \<open>
  C29. Nothing an application writes is ever sent: \<^verbatim>\<open>writePacket\<close> stores the packet but neither transmits
  it nor starts the timer, and the timer is only started by the transmission itself. In every state the
  event loop can reach over any stream, the timer is inactive and every frame the channel put on the wire is an
  acknowledgement.
\<close>

theorem reliable_never_transmits:
  assumes "carries E sent" and "sent nx = {}" and "loop_reach E nx cid c"
  shows "\<not> rc_timeout c \<and> (\<forall>f\<in>sent (ch_next c). frame_flags f = ACK)"
  using wire.only_acks_reach [OF wire_carries [OF assms(1)] assms(3,2)] by (simp add: only_acks_def)

theorem reliable_never_transmits_witness:
  "\<exists>c. loop_reach flaky_env (True, []) 3 c \<and> rc_inFlight c = Some (frame_packet [1]) \<and> \<not> rc_timeout c"
proof -
  let ?c = "snd (ReliableChannel_writePacket (ReliableChannel_new (True, []) 3) (frame_packet [1]))"
  have r: "loop_reach flaky_env (True, []) 3 ?c"
    by (rule loop_reach.loop_next [OF loop_reach.loop_start loop_step.loop_write])
  have "rc_inFlight ?c = Some (frame_packet [1])"
    by (simp add: ReliableChannel_writePacket_def ReliableChannel_new_def)
  with r reliable_never_transmits [OF flaky_carries _ r] show ?thesis by (auto simp: flaky_sent_def)
qed

end
