(* ===== verification/Simulation.thy ===== *)
theory Simulation
  imports Prelude
begin

text \<open>
  Refinement of step relations: what it takes for the states of a component to be explained by an
  abstract machine, and what follows for whole runs. The reliable channels and the registry of tunnel
  devices are checked against this contract.
\<close>

locale simulation =
  fixes cstep :: "'s \<Rightarrow> 's \<Rightarrow> bool" and inv :: "'s \<Rightarrow> bool"
    and astep :: "'a \<Rightarrow> 'a \<Rightarrow> bool" and abs :: "'s \<Rightarrow> 'a"
  assumes inv_step: "cstep s t \<Longrightarrow> inv s \<Longrightarrow> inv t"
    and sim_step: "cstep s t \<Longrightarrow> inv s \<Longrightarrow> abs t = abs s \<or> astep (abs s) (abs t)"
begin

lemma run: "cstep\<^sup>*\<^sup>* s t \<Longrightarrow> inv s \<Longrightarrow> inv t \<and> astep\<^sup>*\<^sup>* (abs s) (abs t)"
proof (induction rule: rtranclp_induct)
  case (step t u)
  then have "inv u" and "abs u = abs t \<or> astep (abs t) (abs u)"
    using inv_step sim_step by blast+
  with step show ?case by (metis rtranclp.rtrancl_into_rtrancl)
qed simp

text \<open>What every run of the abstract machine keeps, every run of the component keeps.\<close>

lemma transfer:
  assumes "\<And>x y. astep x y \<Longrightarrow> P x \<Longrightarrow> P y" and "cstep\<^sup>*\<^sup>* s t" and "inv s" and "P (abs s)"
  shows "P (abs t)"
proof -
  have "astep\<^sup>*\<^sup>* (abs s) (abs t)" using run [OF assms(2,3)] by blast
  then show ?thesis using assms(4) by (induction rule: rtranclp_induct) (auto intro: assms(1))
qed

end

end
