(* ===== verification/Channel_Spec.thy ===== *)
theory Channel_Spec
  imports Reliable_Pair Simulation
begin

text \<open>
  The service that a pair of \<^verbatim>\<open>ReliableChannel\<close> objects provides, as an abstract machine without frames,
  sequence numbers or timers, and the proof that the channels over any network that loses, repeats and
  reorders frames refine it.
\<close>

section \<open>The abstract service\<close>

text \<open>
  One direction: the messages accepted from the sender, how many of them were confirmed to it, and the
  messages delivered to the receiver. One message is under way at a time; it is delivered before it is
  confirmed, except for the very first one, which is confirmed only.
\<close>

record pipe =
  accepted :: "byte list list"
  confirmed :: nat
  delivered :: "byte list list"

inductive pipe_step :: "pipe \<Rightarrow> pipe \<Rightarrow> bool" where
  pipe_accept: "length (accepted p) = confirmed p \<Longrightarrow> pipe_step p (p\<lparr>accepted := accepted p @ [m]\<rparr>)"
| pipe_deliver: "length (accepted p) = Suc (confirmed p) \<Longrightarrow> Suc (length (delivered p)) = confirmed p \<Longrightarrow>
    pipe_step p (p\<lparr>delivered := delivered p @ [accepted p ! confirmed p]\<rparr>)"
| pipe_confirm: "length (accepted p) = Suc (confirmed p) \<Longrightarrow> length (delivered p) = confirmed p \<Longrightarrow>
    pipe_step p (p\<lparr>confirmed := Suc (confirmed p)\<rparr>)"

definition pipe_init :: pipe where
  "pipe_init = \<lparr>accepted = [], confirmed = 0, delivered = []\<rparr>"

text \<open>Both directions.\<close>

inductive duplex_step :: "pipe \<times> pipe \<Rightarrow> pipe \<times> pipe \<Rightarrow> bool" where
  forward: "pipe_step p p' \<Longrightarrow> duplex_step (p, q) (p', q)"
| backward: "pipe_step q q' \<Longrightarrow> duplex_step (p, q) (p, q')"

text \<open>What the service keeps: in-order delivery without repetition, and no confirmation of a message
  other than the first that was not delivered.\<close>

definition pipe_ok :: "pipe \<Rightarrow> bool" where
  "pipe_ok p \<longleftrightarrow> delivered p = take (length (delivered p)) (tl (accepted p))
     \<and> confirmed p \<le> Suc (length (delivered p)) \<and> confirmed p \<le> length (accepted p)"

lemma pipe_step_ok: "pipe_step p q \<Longrightarrow> pipe_ok p \<Longrightarrow> pipe_ok q"
proof (induction rule: pipe_step.induct)
  case (pipe_accept p m)
  then show ?case
    by (cases "accepted p") (auto simp: pipe_ok_def)
next
  case (pipe_deliver p)
  let ?n = "length (delivered p)"
  have "take (Suc ?n) (tl (accepted p)) = take ?n (tl (accepted p)) @ [tl (accepted p) ! ?n]"
    using pipe_deliver by (intro take_Suc_conv_app_nth) simp
  moreover have "tl (accepted p) ! ?n = accepted p ! confirmed p"
    using pipe_deliver by (simp add: nth_tl)
  ultimately show ?case using pipe_deliver by (simp add: pipe_ok_def)
next
  case (pipe_confirm p)
  then show ?case by (simp add: pipe_ok_def)
qed

section \<open>The abstraction\<close>

definition pipe_of :: "'n reliable \<Rightarrow> 'n reliable \<Rightarrow> byte list list \<Rightarrow> pipe" where
  "pipe_of src dst w = \<lparr>accepted = w, confirmed = unat (rc_localSeq src), delivered = received dst\<rparr>"

definition duplex_of :: "'n sys \<Rightarrow> pipe \<times> pipe" where
  "duplex_of s = (pipe_of (chA s) (chB s) (wroteA s), pipe_of (chB s) (chA s) (wroteB s))"

text \<open>The two fields of an endpoint that the abstraction reads.\<close>

lemma pipe_of_cong:
  "rc_localSeq a' = rc_localSeq a \<Longrightarrow> received b' = received b \<Longrightarrow> pipe_of a' b' w = pipe_of a b w"
  by (simp add: pipe_of_def)

lemma write_frame:
  "ReliableChannel_writePacket a p = (r, c) \<Longrightarrow> rc_localSeq c = rc_localSeq a \<and> received c = received a"
  by (auto simp: ReliableChannel_writePacket_def split: if_splits)

lemma length_received:
  assumes "dir_inv sent a b w" and "unat (rc_peerSeq b) < length w"
  shows "length (received b) = unat (rc_peerSeq b)"
  using assms by (simp add: dir_inv_def recv_ok_def)

lemma sent_ok_length: "sent_ok a w \<Longrightarrow> unat (rc_localSeq a) < length w \<Longrightarrow> length w = Suc (unat (rc_localSeq a))"
  by (auto simp: sent_ok_def split: option.splits)

text \<open>Writing is an accepting step or refused.\<close>

lemma write_sim:
  assumes "dir_inv sent a b w" and "ReliableChannel_writePacket a p = (r, c)"
  shows "pipe_of c b (w @ (if r = 1 then [view p] else [])) = pipe_of a b w
    \<or> pipe_step (pipe_of a b w) (pipe_of c b (w @ (if r = 1 then [view p] else [])))"
proof (cases "rc_inFlight a")
  case None
  with assms have "r = 1" "rc_localSeq c = rc_localSeq a" "length w = unat (rc_localSeq a)"
    by (auto simp: ReliableChannel_writePacket_def dir_inv_def sent_ok_def)
  then show ?thesis
    using pipe_accept [of "pipe_of a b w" "view p"] by (simp add: pipe_of_def)
next
  case (Some q)
  with assms(2) show ?thesis by (simp add: ReliableChannel_writePacket_def)
qed

text \<open>An acknowledgement is a confirming step of the direction it answers, or ignored.\<close>

lemma ack_sim:
  assumes inv: "dir_inv sent a b w" and f: "view p \<in> sent (ch_next b)" "frame_flags (view p) = ACK"
    and p: "wf_packet p" "6 \<le> length (view p)" and bound: "length w < 2 ^ 32"
    and rd: "ReliableChannel_readPacket E a p = (r, c)"
  shows "received c = received a \<and> (pipe_of c b w = pipe_of a b w \<or> pipe_step (pipe_of a b w) (pipe_of c b w))"
proof (cases "rc_localSeq a = header_seq (frame_header (view p))")
  case True
  have L: "unat (rc_localSeq a) < length w" "unat (rc_localSeq a) \<le> unat (rc_peerSeq b)"
    using inv f True by (auto simp: dir_inv_def acks_ok_def)
  moreover have "unat (rc_peerSeq b) \<le> unat (rc_localSeq a)" "sent_ok a w"
    using inv by (simp_all add: dir_inv_def recv_ok_def)
  ultimately have len: "length w = Suc (unat (rc_localSeq a))" "length (received b) = unat (rc_localSeq a)"
    using length_received [OF inv] sent_ok_length [of a w] by auto
  moreover have "unat (rc_localSeq a + 1) = Suc (unat (rc_localSeq a))"
    using len(1) bound by (intro unat_Suc_no_wrap) simp
  ultimately show ?thesis
    using readPacket_ack [OF p f(2), of E a] rd True pipe_confirm [of "pipe_of a b w"]
    by (auto simp: pipe_of_def)
next
  case False
  with readPacket_ack [OF p f(2), of E a] rd show ?thesis by simp
qed

text \<open>A data frame is a delivering step of the other direction, or a repetition.\<close>

context wire
begin

lemma timer_frame:
  assumes "dir_inv sent a b w" and "onTimeout E a = (r, c)"
  shows "rc_localSeq c = rc_localSeq a \<and> received c = received a"
proof (cases "rc_inFlight a")
  case None
  with assms show ?thesis by (simp add: onTimeout_idle)
next
  case (Some p)
  then have "small_packet p" using assms(1) by (simp add: dir_inv_def sent_ok_def)
  from onTimeout_sent [OF assms(2) Some this] show ?thesis by auto
qed

lemma data_sim:
  assumes inv: "dir_inv sent b a v" and f: "view p \<in> sent (ch_next b)" "frame_flags (view p) = 0"
    and p: "wf_packet p" "6 \<le> length (view p)"
    and rd: "ReliableChannel_readPacket E a p = (r, c)"
  shows "rc_localSeq c = rc_localSeq a \<and> (pipe_of b c v = pipe_of b a v \<or> pipe_step (pipe_of b a v) (pipe_of b c v))"
proof -
  let ?k = "header_seq (frame_header (view p))" and ?P = "unat (rc_peerSeq a)" and ?L = "unat (rc_localSeq b)"
  have k: "unat ?k < length v" "drop 6 (view p) = v ! unat ?k" "unat ?k \<le> ?L"
    and recv: "?L \<le> Suc ?P" and sent: "sent_ok b v"
    using inv f wire_ok_frameD(3) [of "sent (ch_next b)" v "view p"] sent_okD [of b v]
    by (auto simp: dir_inv_def recv_ok_def)
  from readPacket_data_sent [OF rd p f(2) refl] obtain n where
    c: "c = (if rc_peerSeq a < ?k then raise_signal (Receive (Packet_skip p Reliable_size)) (a\<lparr>rc_peerSeq := ?k\<rparr>) else a)\<lparr>ch_next := n\<rparr>"
    by blast
  show ?thesis
  proof (cases "rc_peerSeq a < ?k")
    case True
    then have eq: "unat ?k = ?L" "?L = Suc ?P"
      using k(3) recv by (simp_all add: word_less_nat_alt)
    have c': "rc_localSeq c = rc_localSeq a" "received c = received a @ [v ! ?L]"
      using c True k(2) p(1) eq by (simp_all add: view_simps Reliable_size_def)
    have "length v = Suc ?L" "Suc (length (received a)) = ?L"
      using sent_ok_length [OF sent] length_received [OF inv] k(1) eq by auto
    with c' show ?thesis
      using pipe_deliver [of "pipe_of b a v"] by (simp add: pipe_of_def)
  next
    case False
    with c show ?thesis by (simp add: pipe_of_def)
  qed
qed

lemma a_step_sim:
  assumes "a_step E sent s t" and "pair_inv sent s" and "length (wroteA s) < 2 ^ 32"
  shows "duplex_of t = duplex_of s \<or> duplex_step (duplex_of s) (duplex_of t)"
  using assms
proof (induction rule: a_step.induct)
  case (app_write p s r c)
  then show ?case
    using write_sim [of sent "chA s" "chB s" "wroteA s" p r c] write_frame [of "chA s" p r c]
    by (auto simp: duplex_of_def pair_inv_def pipe_of_cong [of "chB s" "chB s" c "chA s"] intro: duplex_step.intros)
next
  case (timer s r c)
  then show ?case
    using timer_frame [of "chA s" "chB s" "wroteA s" r c] by (simp add: duplex_of_def pair_inv_def pipe_of_def)
next
  case (recv p s r c)
  then have inv: "dir_inv sent (chA s) (chB s) (wroteA s)" "dir_inv sent (chB s) (chA s) (wroteB s)"
    by (simp_all add: pair_inv_def)
  then have "wire_ok (sent (ch_next (chB s))) (wroteB s)" by (simp add: dir_inv_def)
  note fr = wire_ok_frameD [OF this recv(2)]
  from fr(2) show ?case
  proof
    assume "frame_flags (view p) = 0"
    from data_sim [OF inv(2) recv(2) this recv(1) fr(1) recv(3)] show ?thesis
      by (auto simp: duplex_of_def pipe_of_cong [of c "chA s" "chB s" "chB s"] intro: duplex_step.intros)
  next
    assume "frame_flags (view p) = ACK"
    from ack_sim [OF inv(1) recv(2) this recv(1) fr(1) recv(5) recv(3)] show ?thesis
      by (auto simp: duplex_of_def pipe_of_cong [of "chB s" "chB s" c "chA s"] intro: duplex_step.intros)
  qed
qed

end

section \<open>Refinement\<close>

text \<open>Steps while neither application has written $2^{32}$ messages.\<close>

definition short :: "'n sys \<Rightarrow> bool" where
  "short s \<longleftrightarrow> length (wroteA s) < 2 ^ 32 \<and> length (wroteB s) < 2 ^ 32"

definition short_step :: "'n stream_env \<Rightarrow> 'n stream_env \<Rightarrow> ('n \<Rightarrow> byte list set) \<Rightarrow> 'n sys \<Rightarrow> 'n sys \<Rightarrow> bool" where
  "short_step EA EB sent s t \<longleftrightarrow> net_step EA EB sent s t \<and> short t"

lemma duplex_of_swap: "duplex_of (swap s) = prod.swap (duplex_of s)"
  by (simp add: duplex_of_def)

lemma duplex_step_swap: "duplex_step (prod.swap x) (prod.swap y) = duplex_step x y"
  by (cases x; cases y) (auto elim!: duplex_step.cases intro: duplex_step.intros)

context wires
begin

lemma net_step_sim:
  assumes "net_step EA EB sent s t" and "pair_inv sent s" and "short s"
  shows "duplex_of t = duplex_of s \<or> duplex_step (duplex_of s) (duplex_of t)"
  using assms(1)
proof cases
  case A
  with assms show ?thesis by (simp add: short_def A.a_step_sim)
next
  case (B u)
  then have "duplex_of u = duplex_of (swap s) \<or> duplex_step (duplex_of (swap s)) (duplex_of u)"
    using assms by (intro B.a_step_sim) (simp_all add: pair_inv_swap short_def)
  with B show ?thesis
    using duplex_step_swap [of "duplex_of s" "prod.swap (duplex_of u)"] by (auto simp: duplex_of_swap)
qed

end

text \<open>Any two wires give the simulation.\<close>

sublocale wires \<subseteq> channel: simulation "short_step EA EB sent" "\<lambda>s. pair_inv sent s \<and> short s" duplex_step duplex_of
proof unfold_locales
  fix s t
  assume step: "short_step EA EB sent s t" and inv: "pair_inv sent s \<and> short s"
  show "pair_inv sent t \<and> short t"
    using step inv net_step_inv [of s t] by (auto simp: short_step_def short_def)
  show "duplex_of t = duplex_of s \<or> duplex_step (duplex_of s) (duplex_of t)"
    using step inv net_step_sim [of s t] by (simp add: short_step_def)
qed

lemma short_steps: "(net_step EA EB sent)\<^sup>*\<^sup>* s t \<Longrightarrow> short t \<Longrightarrow> short s \<and> (short_step EA EB sent)\<^sup>*\<^sup>* s t"
proof (induction rule: rtranclp_induct)
  case (step t u)
  then have "short t"
    using net_step_wrote [of EA EB sent t u] by (auto simp: short_def)
  then have "short s" "(short_step EA EB sent)\<^sup>*\<^sup>* s t" using step.IH by auto
  moreover have "short_step EA EB sent t u" using step by (simp add: short_step_def)
  ultimately show ?case by (blast intro: rtranclp.rtrancl_into_rtrancl)
qed simp

lemma duplex_init: "duplex_of (init_sys nA nB cidA cidB) = (pipe_init, pipe_init)"
  by (simp add: duplex_of_def pipe_of_def pipe_init_def init_sys_def ReliableChannel_new_def received_def)

lemma duplex_step_ok:
  "duplex_step x y \<Longrightarrow> pipe_ok (fst x) \<and> pipe_ok (snd x) \<Longrightarrow> pipe_ok (fst y) \<and> pipe_ok (snd y)"
  by (auto elim!: duplex_step.cases intro: pipe_step_ok)

context wires
begin

lemma duplex_run:
  assumes "sent nA = {}" and "sent nB = {}" and "(net_step EA EB sent)\<^sup>*\<^sup>* (init_sys nA nB cidA cidB) s" and "short s"
  shows "pair_inv sent s \<and> duplex_step\<^sup>*\<^sup>* (pipe_init, pipe_init) (duplex_of s)"
    and "pipe_ok (fst (duplex_of s)) \<and> pipe_ok (snd (duplex_of s))"
proof -
  let ?i = "init_sys nA nB cidA cidB"
  have run: "(short_step EA EB sent)\<^sup>*\<^sup>* ?i s" and init: "pair_inv sent ?i \<and> short ?i"
    using short_steps [OF assms(3,4)] pair_inv_init [where sent = sent, OF assms(1,2)] by auto
  show "pair_inv sent s \<and> duplex_step\<^sup>*\<^sup>* (pipe_init, pipe_init) (duplex_of s)"
    using channel.run [OF run init] by (simp add: duplex_init)
  show "pipe_ok (fst (duplex_of s)) \<and> pipe_ok (snd (duplex_of s))"
    by (rule channel.transfer [where P = "\<lambda>x. pipe_ok (fst x) \<and> pipe_ok (snd x)", OF duplex_step_ok run init])
      (simp_all add: duplex_init pipe_init_def pipe_ok_def)
qed

end

text \<open>
  C6. The channels refine the abstract service: as long as fewer than $2^{32}$ messages are written,
  every state the pair can reach over the network is the image of a run of the service, every step of
  either endpoint (a write, a timer, any frame, however late or often repeated, and whether or not the stream
  below takes what the channel writes) is one step of the service or invisible to it, and so the service's
  guarantees hold.
\<close>

theorem reliable_refines_service:
  assumes "carries EA sent" and "carries EB sent" and "sent nA = {}" and "sent nB = {}"
    and "(net_step EA EB sent)\<^sup>*\<^sup>* (init_sys nA nB cidA cidB) s" and "net_step EA EB sent s t"
    and "length (wroteA t) < 2 ^ 32" and "length (wroteB t) < 2 ^ 32"
  shows "duplex_step\<^sup>*\<^sup>* (pipe_init, pipe_init) (duplex_of s)
    \<and> (duplex_of t = duplex_of s \<or> duplex_step (duplex_of s) (duplex_of t))
    \<and> pipe_ok (fst (duplex_of t)) \<and> pipe_ok (snd (duplex_of t))"
proof -
  note w = wires_carries [OF assms(1,2)]
  have short: "short t" "short s" using assms(7,8) net_step_wrote [OF assms(6)] by (auto simp: short_def)
  have t: "(net_step EA EB sent)\<^sup>*\<^sup>* (init_sys nA nB cidA cidB) t" using assms(5,6) by (rule rtranclp.rtrancl_into_rtrancl)
  from wires.duplex_run(1) [OF w assms(3-5) short(2)] wires.net_step_sim [OF w assms(6) _ short(2)]
    wires.duplex_run(2) [OF w assms(3,4) t short(1)]
  show ?thesis by blast
qed

theorem reliable_refines_service_witness:
  "\<exists>s t. (net_step flaky_env flaky_env flaky_sent)\<^sup>*\<^sup>* flaky_init s \<and> net_step flaky_env flaky_env flaky_sent s t
     \<and> duplex_step\<^sup>*\<^sup>* (pipe_init, pipe_init) (duplex_of s)
     \<and> accepted (fst (duplex_of t)) = [[5], [6]] \<and> delivered (fst (duplex_of t)) = [[6]]
     \<and> pipe_ok (fst (duplex_of t))"
proof -
  obtain s where s: "(net_step flaky_env flaky_env flaky_sent)\<^sup>*\<^sup>* flaky_init s" "wroteA s = [[5], [6]]" "wroteB s = []"
    "rc_peerSeq (chB s) = 1" "rc_inFlight (chA s) = None"
    using two_messages by blast
  have step: "net_step flaky_env flaky_env flaky_sent s s"
    using a_step.timer [of flaky_env s "Ret ()" "chA s" flaky_sent] s(5) by (simp add: net_step.A onTimeout_idle)
  have "received (chB s) = [[6]]"
    using flaky.net_steps_inv [OF s(1) flaky_init_inv] s(2-4) by (simp add: pair_inv_def dir_inv_def recv_ok_def)
  with reliable_refines_service [OF flaky_carries flaky_carries _ _ s(1) step] s step show ?thesis
    by (intro exI [of _ s]) (simp add: duplex_of_def pipe_of_def flaky_sent_def)
qed

end
