(* ===== verification/Handles.thy ===== *)
theory Handles
  imports Prelude "HOL-Library.Multiset"
begin

text \<open>
  Classes that own a resource handle and can be moved but not copied (\<^verbatim>\<open>host::TunDevice\<close>,
  \<^verbatim>\<open>host::TunAdminContext\<close> and its helper \<^verbatim>\<open>RtnlLink\<close>): the contract of their move constructor, move
  assignment and destructor, and its consequence for any program that creates, moves, assigns and
  destroys such objects. The classes are checked against the contract where they are defined.
\<close>

section \<open>Programs over owning objects\<close>

text \<open>
  The operations of a class: move construction (new object, moved-from object), move assignment
  (handles released, left side, right side), assignment of an object to itself, destruction.
\<close>

record ('o, 'h) handle_class =
  hc_move :: "'o \<Rightarrow> 'o \<times> 'o"
  hc_assign :: "'o \<Rightarrow> 'o \<Rightarrow> 'h list \<times> 'o \<times> 'o"
  hc_assign_self :: "'o \<Rightarrow> 'h list \<times> 'o"
  hc_destroy :: "'o \<Rightarrow> 'h list"

datatype handle_cmd = MoveConstruct nat | MoveAssign nat nat | Destroy nat

text \<open>
  The objects of a program in the order of their creation, \<open>None\<close> after destruction, with the handles
  released so far. A command on an object that does not exist does nothing.
\<close>

definition object_at :: "'o option list \<Rightarrow> nat \<Rightarrow> 'o option" where
  "object_at st i = (if i < length st then st ! i else None)"

fun run_cmd :: "('o, 'h) handle_class \<Rightarrow> handle_cmd \<Rightarrow> 'h list \<times> 'o option list \<Rightarrow> 'h list \<times> 'o option list" where
  "run_cmd C (MoveConstruct i) (rel, st) =
     (case object_at st i of
        None \<Rightarrow> (rel, st)
      | Some x \<Rightarrow> let (y, x') = hc_move C x in (rel, st[i := Some x'] @ [Some y]))"
| "run_cmd C (MoveAssign i j) (rel, st) =
     (case (object_at st i, object_at st j) of
        (Some x, Some y) \<Rightarrow>
          if i = j then let (r, x') = hc_assign_self C x in (rel @ r, st[i := Some x'])
          else let (r, x', y') = hc_assign C x y in (rel @ r, st[i := Some x', j := Some y'])
      | _ \<Rightarrow> (rel, st))"
| "run_cmd C (Destroy i) (rel, st) =
     (case object_at st i of None \<Rightarrow> (rel, st) | Some x \<Rightarrow> (rel @ hc_destroy C x, st[i := None]))"

definition run_cmds :: "('o, 'h) handle_class \<Rightarrow> handle_cmd list \<Rightarrow> 'h list \<times> 'o option list \<Rightarrow> 'h list \<times> 'o option list" where
  "run_cmds C cs z = fold (run_cmd C) cs z"

text \<open>The handles that the objects of a program own.\<close>

definition opt_list :: "'a option \<Rightarrow> 'a list" where
  "opt_list x = (case x of None \<Rightarrow> [] | Some a \<Rightarrow> [a])"

lemma opt_list_simps [simp]: "opt_list None = []" "opt_list (Some a) = [a]"
  by (simp_all add: opt_list_def)

definition owned :: "('o \<Rightarrow> 'h option) \<Rightarrow> 'o option list \<Rightarrow> 'h multiset" where
  "owned held st = (\<Sum>x\<leftarrow>st. mset (opt_list (Option.bind x held)))"

lemma owned_simps [simp]:
  "owned held [] = {#}"
  "owned held (x # st) = mset (opt_list (Option.bind x held)) + owned held st"
  "owned held (st @ st') = owned held st + owned held st'"
  by (simp_all add: owned_def)

lemma owned_update:
  "i < length st \<Longrightarrow>
   owned held (st[i := x]) + mset (opt_list (Option.bind (st ! i) held)) = owned held st + mset (opt_list (Option.bind x held))"
  by (induction st arbitrary: i) (auto split: nat.split simp: ac_simps)

lemma object_at_Some: "object_at st i = Some x \<longleftrightarrow> i < length st \<and> st ! i = Some x"
  by (auto simp: object_at_def)

section \<open>The contract\<close>

locale movable_handle =
  fixes C :: "('o, 'h) handle_class" and held :: "'o \<Rightarrow> 'h option"
  assumes move_law: "hc_move C x = (y, x') \<Longrightarrow> held y = held x \<and> held x' = None"
    and assign_law: "hc_assign C x y = (r, x', y') \<Longrightarrow> r = opt_list (held x) \<and> held x' = held y \<and> held y' = None"
    and assign_self_law: "hc_assign_self C x = (r, x') \<Longrightarrow> r = opt_list (held x) \<and> held x' = None"
    and destroy_law: "hc_destroy C x = opt_list (held x)"
begin

lemma run_cmd_conserves:
  assumes "run_cmd C c (rel, st) = (rel', st')"
  shows "mset rel' + owned held st' = mset rel + owned held st"
proof (cases c)
  case (MoveConstruct i)
  show ?thesis
  proof (cases "object_at st i")
    case (Some x)
    obtain y x' where m: "hc_move C x = (y, x')" by fastforce
    with move_law [OF m] owned_update [of i st held "Some x'"] Some MoveConstruct assms show ?thesis
      by (auto simp: object_at_def split: if_splits)
  qed (use assms MoveConstruct in simp)
next
  case (MoveAssign i j)
  show ?thesis
  proof (cases "object_at st i = None \<or> object_at st j = None")
    case False
    then obtain x y where xy: "i < length st" "st ! i = Some x" "j < length st" "st ! j = Some y"
      by (auto simp: object_at_Some)
    show ?thesis
    proof (cases "i = j")
      case True
      obtain r x' where m: "hc_assign_self C x = (r, x')" by fastforce
      with assign_self_law [OF m] owned_update [of i st held "Some x'"] xy True MoveAssign assms show ?thesis
        by (auto simp: object_at_def add.commute)
    next
      case False
      obtain r x' y' where m: "hc_assign C x y = (r, x', y')" using prod_cases3 by blast
      let ?s1 = "st[i := Some x']" and ?s2 = "st[i := Some x', j := Some y']"
      note law = assign_law [OF m]
      have "owned held ?s1 + mset (opt_list (held x)) = owned held st + mset (opt_list (held y))"
        using owned_update [of i st held "Some x'"] xy law by simp
      moreover have "owned held ?s2 + mset (opt_list (held y)) = owned held ?s1"
        using owned_update [of j ?s1 held "Some y'"] xy False law by simp
      ultimately have "(mset r + owned held ?s2) + mset (opt_list (held y)) = owned held st + mset (opt_list (held y))"
        using law by (metis add.assoc add.commute)
      then show ?thesis
        using m xy False MoveAssign assms by (auto simp: object_at_def)
    qed
  qed (use assms MoveAssign in \<open>auto split: option.splits\<close>)
next
  case (Destroy i)
  with owned_update [of i st held None] assms destroy_law show ?thesis
    by (auto simp: object_at_Some add.commute split: option.splits)
qed

lemma run_cmds_conserves:
  assumes "run_cmds C cs (rel, st) = (rel', st')"
  shows "mset rel' + owned held st' = mset rel + owned held st"
  using assms
proof (induction cs arbitrary: rel st)
  case Nil
  then show ?case by (simp add: run_cmds_def)
next
  case (Cons c cs)
  obtain r s where c: "run_cmd C c (rel, st) = (r, s)" by fastforce
  with Cons.prems have "run_cmds C cs (r, s) = (rel', st')" by (simp add: run_cmds_def)
  with Cons.IH run_cmd_conserves [OF c] show ?case by simp
qed

lemma owned_destroyed: "set st \<subseteq> {None} \<Longrightarrow> owned held st = {#}"
  by (induction st) auto

text \<open>Once every object is gone, every handle has been released exactly once.\<close>

lemma released_exactly_once:
  assumes "run_cmds C cs ([], st) = (rel, st')" and "set st' \<subseteq> {None}"
  shows "mset rel = owned held st"
  using run_cmds_conserves [OF assms(1)] owned_destroyed [OF assms(2)] by simp

end

end
