(* ===== verification/Host_Tun.thy ===== *)
theory Host_Tun
  imports Exceptions Std_Map Handles
begin

text \<open>
  Tunnel devices of the host (\<^verbatim>\<open>include/host/TunDevice.hpp\<close>, \<^verbatim>\<open>host/TunDevice.cpp\<close>) and the registry that
  creates and owns them (\<^verbatim>\<open>host/TunRegistry.hpp\<close>, \<^verbatim>\<open>host/TunRegistry.cpp\<close>). The system calls are arguments;
  the set of open descriptors of the process is part of the state.
\<close>

section \<open>TunDevice\<close>

record host_tun =
  ht_fd :: int
  ht_ifIndex :: int
  ht_name :: string

definition HostTun_new :: "int \<Rightarrow> int \<Rightarrow> string \<Rightarrow> host_tun" where
  "HostTun_new fd ifIndex name = \<lparr>ht_fd = fd, ht_ifIndex = ifIndex, ht_name = name\<rparr>"

text \<open>
  A string that was moved from is valid but unspecified: \<open>junk\<close>. The constructor and the assignment
  return both objects; the assignment also the descriptors it passes to \<^verbatim>\<open>close\<close>.
\<close>

definition HostTun_close :: "host_tun \<Rightarrow> int list" where
  "HostTun_close d = (if ht_fd d \<ge> 0 then [ht_fd d] else [])"

definition HostTun_move :: "string \<Rightarrow> host_tun \<Rightarrow> host_tun \<times> host_tun" where
  "HostTun_move junk other =
     (\<lparr>ht_fd = ht_fd other, ht_ifIndex = ht_ifIndex other, ht_name = ht_name other\<rparr>,
      \<lparr>ht_fd = - 1, ht_ifIndex = - 1, ht_name = junk\<rparr>)"

definition HostTun_assign :: "string \<Rightarrow> host_tun \<Rightarrow> host_tun \<Rightarrow> int list \<times> host_tun \<times> host_tun" where
  "HostTun_assign junk d rhs =
     (HostTun_close d,
      d\<lparr>ht_fd := ht_fd rhs, ht_name := ht_name rhs\<rparr>,
      rhs\<lparr>ht_fd := - 1, ht_ifIndex := - 1, ht_name := junk\<rparr>)"

text \<open>The same statements when both sides are one object.\<close>

definition HostTun_assign_self :: "string \<Rightarrow> host_tun \<Rightarrow> int list \<times> host_tun" where
  "HostTun_assign_self junk d = (HostTun_close d, d\<lparr>ht_name := junk, ht_fd := - 1, ht_ifIndex := - 1\<rparr>)"

definition HostTun_delete :: "host_tun \<Rightarrow> int list" where
  "HostTun_delete d = HostTun_close d"

text \<open>\<open>dup_call\<close> is \<^verbatim>\<open>dup(2)\<close>: result and \<^verbatim>\<open>errno\<close>.\<close>

definition HostTun_dup :: "(int \<Rightarrow> int \<times> int) \<Rightarrow> host_tun \<Rightarrow> host_tun outcome" where
  "HostTun_dup dup_call d =
     (let (fd, errno) = dup_call (ht_fd d)
      in if fd < 0 then Throw (SystemError errno) else Ret (HostTun_new fd (ht_ifIndex d) (ht_name d)))"

definition HostTun_class :: "string \<Rightarrow> (host_tun, int) handle_class" where
  "HostTun_class junk =
     \<lparr>hc_move = HostTun_move junk, hc_assign = HostTun_assign junk, hc_assign_self = HostTun_assign_self junk,
      hc_destroy = HostTun_delete\<rparr>"

definition ht_held :: "host_tun \<Rightarrow> int option" where
  "ht_held d = (if ht_fd d \<ge> 0 then Some (ht_fd d) else None)"

lemmas host_tun_defs = HostTun_new_def HostTun_close_def HostTun_move_def HostTun_assign_def HostTun_assign_self_def
  HostTun_delete_def HostTun_class_def ht_held_def

interpretation host_tun: movable_handle "HostTun_class junk" ht_held for junk
  by unfold_locales (auto simp: host_tun_defs)

lemma dup_owns_descriptor:
  "HostTun_dup dup_call d = Ret e \<Longrightarrow>
   ht_held e = Some (fst (dup_call (ht_fd d))) \<and> ht_ifIndex e = ht_ifIndex d \<and> ht_name e = ht_name d"
  by (auto simp: HostTun_dup_def host_tun_defs split: prod.splits if_splits)

section \<open>TunRegistry\<close>

text \<open>The map of devices, its pointers never null, and the open descriptors of the process.\<close>

record tun_registry =
  tr_devices :: "(string \<times> host_tun) list"
  tr_tunCtl :: string

type_synonym fds = "int set"

definition TunRegistry_new :: "string \<Rightarrow> tun_registry" where
  "TunRegistry_new tunCtl = \<lparr>tr_devices = [], tr_tunCtl = tunCtl\<rparr>"

definition IFNAMSIZ :: nat where "IFNAMSIZ = 16"

text \<open>\<^verbatim>\<open>strncpy\<close> to the zeroed name field, and a C string read from an array of characters.\<close>

definition NUL :: char where "NUL = CHR 0x00"

definition c_string :: "string \<Rightarrow> string" where
  "c_string s = takeWhile (\<lambda>c. c \<noteq> NUL) s"

definition strncpy :: "nat \<Rightarrow> string \<Rightarrow> string" where
  "strncpy n src = (let t = take n (c_string src) in t @ replicate (n - length t) NUL)"

text \<open>
  \<^verbatim>\<open>createDevice\<close>. \<open>open_call\<close> opens the clone device (result, \<^verbatim>\<open>errno\<close>), \<open>tunsetiff\<close> is the \<^verbatim>\<open>ioctl\<close> on a
  descriptor and the name field (result, \<^verbatim>\<open>errno\<close> as read after \<^verbatim>\<open>close\<close>, the name field it leaves),
  \<open>nametoindex\<close> is \<^verbatim>\<open>if_nametoindex\<close>. A name field without a terminator is read past its end.
  The assignment to the map destroys the device that had the name before.
\<close>

definition createDevice ::
  "(string \<Rightarrow> int \<times> int) \<Rightarrow> (int \<Rightarrow> string \<Rightarrow> int \<times> int \<times> string) \<Rightarrow> (string \<Rightarrow> 32 word)
     \<Rightarrow> tun_registry \<times> fds \<Rightarrow> string \<Rightarrow> host_tun outcome \<times> tun_registry \<times> fds" where
  "createDevice open_call tunsetiff nametoindex st nameTemplate =
     (let (tr, os) = st; (fd, errno) = open_call (c_string (tr_tunCtl tr))
      in if fd < 0 then (Throw (SystemError errno), tr, os)
         else
           let os = insert fd os; (err, errno, ifr_name) = tunsetiff fd (strncpy IFNAMSIZ nameTemplate)
           in if err < 0 then (Throw (SystemError errno), tr, os - {fd})
              else if NUL \<notin> set ifr_name then (UB OutOfBounds, tr, os)
              else
                let ifName = c_string ifr_name;
                    ifIndex = sint (nametoindex ifName);
                    d = HostTun_new fd ifIndex ifName;
                    closed = (case map_find string_less ifName (tr_devices tr) of
                                None \<Rightarrow> [] | Some old \<Rightarrow> HostTun_delete old)
                in (Ret d, tr\<lparr>tr_devices := map_put string_less ifName d (tr_devices tr)\<rparr>, os - set closed))"

definition findDevice :: "tun_registry \<Rightarrow> string \<Rightarrow> host_tun option" where
  "findDevice tr name = map_find string_less name (tr_devices tr)"

definition closeDevice :: "tun_registry \<times> fds \<Rightarrow> string \<Rightarrow> bool \<times> tun_registry \<times> fds" where
  "closeDevice st name =
     (let (tr, os) = st
      in case map_find string_less name (tr_devices tr) of
           None \<Rightarrow> (False, tr, os)
         | Some d \<Rightarrow> (True, tr\<lparr>tr_devices := map_erase string_less name (tr_devices tr)\<rparr>, os - set (HostTun_delete d)))"

text \<open>
  The defaulted move operations: the map of the right side is moved and left empty, its string left
  unspecified; an assignment first destroys the devices of the left side.
\<close>

definition TunRegistry_move :: "string \<Rightarrow> tun_registry \<Rightarrow> tun_registry \<times> tun_registry" where
  "TunRegistry_move junk other = (other, \<lparr>tr_devices = [], tr_tunCtl = junk\<rparr>)"

definition TunRegistry_assign :: "string \<Rightarrow> tun_registry \<Rightarrow> tun_registry \<Rightarrow> fds \<Rightarrow> tun_registry \<times> tun_registry \<times> fds" where
  "TunRegistry_assign junk tr rhs os =
     (rhs, \<lparr>tr_devices = [], tr_tunCtl = junk\<rparr>, os - set (concat (map (\<lambda>(n, d). HostTun_delete d) (tr_devices tr))))"

text \<open>The implicit destructor destroys the devices of the map.\<close>

definition TunRegistry_delete :: "tun_registry \<times> fds \<Rightarrow> fds" where
  "TunRegistry_delete st = snd st - set (concat (map (\<lambda>(n, d). HostTun_delete d) (tr_devices (fst st))))"

section \<open>Moving devices\<close>

text \<open>
  C21. Descriptors of tunnel devices are closed exactly once: for any program that moves, assigns
  (also to itself) and destroys device objects, once all of them are destroyed, the descriptors passed
  to \<^verbatim>\<open>close\<close> are exactly those the objects held at the start, each as often as it was held.
\<close>

theorem tun_descriptors_closed_once:
  assumes "run_cmds (HostTun_class junk) cs ([], st) = (closed, st')" and "set st' \<subseteq> {None}"
  shows "mset closed = owned ht_held st"
  using assms by (rule host_tun.released_exactly_once)

theorem tun_descriptors_closed_once_witness:
  "mset (fst (run_cmds (HostTun_class ''?'') [MoveConstruct 0, MoveAssign 1 1, MoveAssign 2 1, Destroy 2, Destroy 1, Destroy 0]
     ([], [Some (HostTun_new 5 1 ''a''), Some (HostTun_new 6 2 ''b'')]))) = {#5, 6#}"
proof -
  let ?st = "[Some (HostTun_new 5 1 ''a''), Some (HostTun_new 6 2 ''b'')]"
  have r: "run_cmds (HostTun_class ''?'') [MoveConstruct 0, MoveAssign 1 1, MoveAssign 2 1, Destroy 2, Destroy 1, Destroy 0]
     ([], ?st) = ([6, 5], [None, None, None])"
    by (simp add: run_cmds_def object_at_def host_tun_defs)
  have "mset [6, 5] = owned ht_held ?st"
    by (rule tun_descriptors_closed_once [OF r]) simp
  then show ?thesis
    by (simp only: r fst_conv) (simp add: host_tun_defs)
qed

text \<open>
  Move assignment loses the interface index: the left side takes over descriptor and name of the
  right side but keeps its own index, so the device that is later administered through it is another one.
  Move construction keeps all three.
\<close>

theorem move_assign_keeps_old_index:
  "(case HostTun_assign junk d rhs of (closed, d', rhs') \<Rightarrow>
      ht_fd d' = ht_fd rhs \<and> ht_name d' = ht_name rhs \<and> ht_ifIndex d' = ht_ifIndex d
      \<and> ht_fd rhs' = - 1 \<and> ht_ifIndex rhs' = - 1
      \<and> (d' = rhs \<longleftrightarrow> ht_ifIndex d = ht_ifIndex rhs))
   \<and> fst (HostTun_move junk rhs) = rhs"
  by (cases d; cases rhs) (auto simp: host_tun_defs)

section \<open>The registry\<close>

definition devices :: "tun_registry \<Rightarrow> string \<rightharpoonup> host_tun" where
  "devices tr = map_of (tr_devices tr)"

text \<open>
  The registry's promise: every device is stored under its name with a descriptor of its own, and the
  open descriptors are those that were open without the registry and those of its devices.
\<close>

definition registry_inv :: "fds \<Rightarrow> tun_registry \<times> fds \<Rightarrow> bool" where
  "registry_inv base st \<longleftrightarrow>
     map_sorted string_less (tr_devices (fst st)) \<and>
     (\<forall>n d. devices (fst st) n = Some d \<longrightarrow> ht_fd d \<ge> 0 \<and> ht_name d = n \<and> ht_fd d \<notin> base) \<and>
     (\<forall>n n' d d'. devices (fst st) n = Some d \<longrightarrow> devices (fst st) n' = Some d' \<longrightarrow> ht_fd d = ht_fd d' \<longrightarrow> n = n') \<and>
     snd st = base \<union> {ht_fd d | n d. devices (fst st) n = Some d}"

lemma find_devices: "map_sorted string_less (tr_devices tr) \<Longrightarrow> map_find string_less n (tr_devices tr) = devices tr n"
  by (simp add: devices_def string_key.find_map_of)

lemma devices_put:
  "map_sorted string_less (tr_devices tr) \<Longrightarrow>
   devices (tr\<lparr>tr_devices := map_put string_less n d (tr_devices tr)\<rparr>) = (devices tr)(n \<mapsto> d)"
  by (simp add: devices_def string_key.map_of_put)

lemma devices_erase:
  "map_sorted string_less (tr_devices tr) \<Longrightarrow>
   devices (tr\<lparr>tr_devices := map_erase string_less n (tr_devices tr)\<rparr>) = (devices tr)(n := None)"
  by (simp add: devices_def string_key.map_of_erase)

lemma registry_invD:
  assumes "registry_inv base (tr, os)"
  shows "map_sorted string_less (tr_devices tr)"
    and "devices tr n = Some d \<Longrightarrow> ht_fd d \<notin> base"
    and "devices tr n = Some d \<Longrightarrow> 0 \<le> ht_fd d \<and> ht_name d = n"
    and "devices tr n = Some d \<Longrightarrow> devices tr n' = Some d' \<Longrightarrow> ht_fd d = ht_fd d' \<Longrightarrow> n = n'"
    and "os = base \<union> {ht_fd d | n d. devices tr n = Some d}"
  using assms by (simp_all add: registry_inv_def)

lemma findDevice_devices: "registry_inv base (tr, os) \<Longrightarrow> findDevice tr = devices tr"
  by (simp add: findDevice_def find_devices fun_eq_iff registry_invD(1))

lemma closeDevice_inv:
  assumes "registry_inv base (tr, os)" and "closeDevice (tr, os) n = (b, tr', os')"
  shows "registry_inv base (tr', os') \<and> devices tr' = (devices tr)(n := None) \<and> b = (devices tr n \<noteq> None)"
proof -
  have srt: "map_sorted string_less (tr_devices tr)" using assms(1) by (simp add: registry_inv_def)
  show ?thesis
  proof (cases "devices tr n")
    case None
    then have "(devices tr)(n := None) = devices tr" by (simp add: fun_upd_idem)
    with assms None srt show ?thesis by (simp add: closeDevice_def find_devices)
  next
    case (Some d)
    with assms srt have t: "tr' = tr\<lparr>tr_devices := map_erase string_less n (tr_devices tr)\<rparr>" and o: "os' = os - {ht_fd d}" and "b"
      by (auto simp: closeDevice_def find_devices host_tun_defs registry_inv_def)
    have dev: "devices tr' = (devices tr)(n := None)" by (simp add: t devices_erase srt)
    have "os' = base \<union> {ht_fd x | m x. devices tr' m = Some x}"
    proof
      show "os' \<subseteq> base \<union> {ht_fd x | m x. devices tr' m = Some x}"
        using registry_invD(5) [OF assms(1)] Some unfolding o dev by (auto split: if_splits) (metis option.inject)
      show "base \<union> {ht_fd x | m x. devices tr' m = Some x} \<subseteq> os'"
        using registry_invD(2,4,5) [OF assms(1)] Some unfolding o dev by (auto split: if_splits)
    qed
    moreover have "map_sorted string_less (tr_devices tr')" by (simp add: t string_key.sorted_erase srt)
    ultimately show ?thesis
      using assms(1) dev \<open>b\<close> Some by (auto simp: registry_inv_def)
  qed
qed

text \<open>
  A registry that is destroyed leaves the descriptors that were open without it. With two registries of one
  process, an assignment closes exactly the descriptors of the left side's devices and hands the right side's over.
\<close>

definition registry_fds :: "tun_registry \<Rightarrow> fds" where
  "registry_fds tr = {ht_fd d | n d. devices tr n = Some d}"

lemma sorted_keys_distinct: "map_sorted string_less xs \<Longrightarrow> distinct (map fst xs)"
  unfolding map_sorted_def distinct_conv_nth sorted_wrt_iff_nth_less
  using string_key.irrefl by (metis linorder_neqE_nat)

lemma deleted_fds:
  assumes "registry_inv base (tr, os)"
  shows "set (concat (map (\<lambda>(n, d). HostTun_delete d) (tr_devices tr))) = registry_fds tr"
proof -
  have key: "(n, d) \<in> set (tr_devices tr) \<longleftrightarrow> devices tr n = Some d" for n d
    using sorted_keys_distinct [OF registry_invD(1) [OF assms]] by (simp add: devices_def)
  show ?thesis
    using registry_invD(3) [OF assms] by (fastforce simp: registry_fds_def host_tun_defs key)
qed

lemma delete_base:
  assumes "registry_inv base (tr, os)"
  shows "TunRegistry_delete (tr, os) = base"
proof -
  have "TunRegistry_delete (tr, os) = os - registry_fds tr"
    using deleted_fds [OF assms] by (simp add: TunRegistry_delete_def)
  then show ?thesis
    using registry_invD(5) [OF assms] registry_invD(2) [OF assms] by (auto simp: registry_fds_def)
qed

lemma registry_assign_inv:
  assumes "registry_inv (base \<union> registry_fds rhs) (tr, os)" and "registry_inv (base \<union> registry_fds tr) (rhs, os)"
    and "TunRegistry_assign junk tr rhs os = (tr', rhs', os')"
  shows "registry_inv base (tr', os') \<and> devices tr' = devices rhs \<and> devices rhs' = Map.empty \<and> os' = os - registry_fds tr"
proof -
  have t: "tr' = rhs" "devices rhs' = Map.empty" "os' = os - registry_fds tr"
    using assms(3) deleted_fds [OF assms(1)] by (auto simp: TunRegistry_assign_def devices_def)
  have "os = base \<union> registry_fds rhs \<union> registry_fds tr"
    using registry_invD(5) [OF assms(1)] by (simp add: registry_fds_def)
  moreover have "registry_fds tr \<inter> (base \<union> registry_fds rhs) = {}"
    using registry_invD(2) [OF assms(1)] by (auto simp: registry_fds_def)
  ultimately have "os' = base \<union> registry_fds rhs" using t(3) by blast
  with assms(2) t show ?thesis by (simp add: registry_inv_def registry_fds_def)
qed

text \<open>The system gives out descriptors that are not in use.\<close>

definition fresh_descriptors :: "(string \<Rightarrow> int \<times> int) \<Rightarrow> fds \<Rightarrow> bool" where
  "fresh_descriptors open_call os \<longleftrightarrow> (\<forall>path. fst (open_call path) \<ge> 0 \<longrightarrow> fst (open_call path) \<notin> os)"

lemma createDevice_cases:
  assumes "createDevice open_call tunsetiff nametoindex (tr, os) nt = (r, tr', os')"
    and "fresh_descriptors open_call os" and "registry_inv base (tr, os)"
  obtains (refused) e where "r = Throw (SystemError e)" "tr' = tr" "os' = os"
  | (unterminated) "r = UB OutOfBounds"
  | (created) d where "r = Ret d" "0 \<le> ht_fd d" "ht_fd d \<notin> os"
      "tr' = tr\<lparr>tr_devices := map_put string_less (ht_name d) d (tr_devices tr)\<rparr>"
      "os' = insert (ht_fd d) os - {ht_fd old | old. devices tr (ht_name d) = Some old}"
proof -
  note srt = registry_invD(1) [OF assms(3)]
  obtain fd errno where o: "open_call (c_string (tr_tunCtl tr)) = (fd, errno)" by fastforce
  obtain err en nm where t: "tunsetiff fd (strncpy IFNAMSIZ nt) = (err, en, nm)" using prod_cases3 by blast
  have fresh: "0 \<le> fd \<Longrightarrow> fd \<notin> os"
    using assms(2) o unfolding fresh_descriptors_def by (metis fst_conv)
  let ?n = "c_string nm"
  let ?d = "HostTun_new fd (sint (nametoindex ?n)) ?n"
  have old: "set (case devices tr ?n of None \<Rightarrow> [] | Some old \<Rightarrow> HostTun_delete old) = {ht_fd old | old. devices tr ?n = Some old}"
    using registry_invD(3) [OF assms(3), of ?n] by (auto simp: host_tun_defs split: option.split)
  consider "fd < 0" | "0 \<le> fd" "err < 0" | "0 \<le> fd" "0 \<le> err" "NUL \<notin> set nm" | "0 \<le> fd" "0 \<le> err" "NUL \<in> set nm" by linarith
  then show ?thesis
  proof cases
    case 4
    with assms(1) o t srt old have "r = Ret ?d" "tr' = tr\<lparr>tr_devices := map_put string_less ?n ?d (tr_devices tr)\<rparr>"
      "os' = insert fd os - {ht_fd old | old. devices tr ?n = Some old}"
      by (auto simp: createDevice_def Let_def find_devices)
    with 4 fresh created [of ?d] show ?thesis by (simp add: HostTun_new_def)
  qed (use assms(1) o t fresh refused unterminated in \<open>auto simp: createDevice_def Let_def\<close>)
qed

lemma createDevice_inv:
  assumes "createDevice open_call tunsetiff nametoindex (tr, os) nt = (Ret d, tr', os')"
    and "fresh_descriptors open_call os" and "registry_inv base (tr, os)"
  shows "registry_inv base (tr', os') \<and> devices tr' = (devices tr)(ht_name d \<mapsto> d) \<and> ht_fd d \<in> os' - os \<and> 0 \<le> ht_fd d"
  using assms
proof (cases rule: createDevice_cases)
  case (created d')
  note inv = registry_invD [OF assms(3)]
  let ?old = "{ht_fd old | old. devices tr (ht_name d) = Some old}"
  have d: "d' = d" and fresh: "ht_fd d \<notin> os" "0 \<le> ht_fd d" using created by simp_all
  have dev: "devices tr' = (devices tr)(ht_name d \<mapsto> d)" using created(4) inv(1) by (simp add: d devices_put)
  have os: "os' = insert (ht_fd d) os - ?old" using created(5) d by simp
  have new: "ht_fd d \<notin> base" "\<And>n x. devices tr n = Some x \<Longrightarrow> ht_fd x \<noteq> ht_fd d"
    using fresh(1) inv(5) by auto
  have "os' = base \<union> {ht_fd x | m x. devices tr' m = Some x}"
  proof
    show "os' \<subseteq> base \<union> {ht_fd x | m x. devices tr' m = Some x}"
      unfolding os dev using inv(5) by (auto split: if_splits) metis
    show "base \<union> {ht_fd x | m x. devices tr' m = Some x} \<subseteq> os'"
      unfolding os dev using inv(2,4,5) new by (auto split: if_splits)
  qed
  moreover have "map_sorted string_less (tr_devices tr')" using created(4) by (simp add: string_key.sorted_put inv(1))
  moreover have "n = n'" if "devices tr' n = Some x" "devices tr' n' = Some x'" "ht_fd x = ht_fd x'" for n n' x x'
    using that inv(4) new(2) unfolding dev by (metis fun_upd_apply option.inject)
  moreover have "0 \<le> ht_fd x \<and> ht_name x = n \<and> ht_fd x \<notin> base" if "devices tr' n = Some x" for n x
    using that inv(2,3) new(1) fresh(2) unfolding dev by (auto split: if_splits)
  ultimately have "registry_inv base (tr', os')" unfolding registry_inv_def fst_conv snd_conv by blast
  moreover have "ht_fd d \<in> os' - os" unfolding os using new(2) fresh by fastforce
  ultimately show ?thesis using dev fresh(2) by blast
qed simp_all

text \<open>States of a registry and the process's descriptors that a program can reach.\<close>

inductive registry_reach :: "fds \<Rightarrow> tun_registry \<times> fds \<Rightarrow> bool" for base where
  registry_start: "registry_reach base (TunRegistry_new tunCtl, base)"
| registry_create: "registry_reach base (tr, os) \<Longrightarrow> fresh_descriptors open_call os \<Longrightarrow>
    createDevice open_call tunsetiff nametoindex (tr, os) nt = (r, st') \<Longrightarrow> (\<And>u. r \<noteq> UB u) \<Longrightarrow> registry_reach base st'"
| registry_close: "registry_reach base (tr, os) \<Longrightarrow> closeDevice (tr, os) n = (b, st') \<Longrightarrow> registry_reach base st'"

lemma registry_reach_inv: "registry_reach base st \<Longrightarrow> registry_inv base st"
proof (induction rule: registry_reach.induct)
  case (registry_start tunCtl)
  then show ?case
    by (simp add: registry_inv_def TunRegistry_new_def devices_def string_key.sorted_Nil)
next
  case (registry_create tr os open_call tunsetiff nametoindex nt r st')
  obtain tr' os' where st: "st' = (tr', os')" by fastforce
  from registry_create.hyps(3) [unfolded st] registry_create.hyps(2) registry_create.IH show ?case
  proof (cases rule: createDevice_cases)
    case unterminated
    with registry_create.hyps(4) show ?thesis by blast
  next
    case (created d)
    with createDevice_inv [of open_call tunsetiff nametoindex tr os nt d tr' os' base] registry_create st show ?thesis by simp
  qed (use registry_create.IH st in simp)
next
  case (registry_close tr os n b st')
  then show ?case using closeDevice_inv [of base tr os n b "fst st'" "snd st'"] by simp
qed

text \<open>A system in which the clone device opens as descriptor 4 and devices are named by the registry.\<close>

definition demo_tunsetiff :: "int \<Rightarrow> string \<Rightarrow> int \<times> int \<times> string" where
  "demo_tunsetiff fd nm = (0, 0, ''tun0'' @ [NUL])"

lemma demo_create:
  "createDevice (\<lambda>_. (4, 0)) demo_tunsetiff (\<lambda>_. 9) (TunRegistry_new ''/dev/net/tun'', {0}) ''tun%d''
   = (Ret (HostTun_new 4 9 ''tun0''), \<lparr>tr_devices = [(''tun0'', HostTun_new 4 9 ''tun0'')], tr_tunCtl = ''/dev/net/tun''\<rparr>, {0, 4})"
  by (auto simp: createDevice_def TunRegistry_new_def demo_tunsetiff_def c_string_def NUL_def Let_def)

lemma demo_fresh: "fresh_descriptors (\<lambda>_. (4, 0)) {0}"
  by (simp add: fresh_descriptors_def)

text \<open>
  The registry is a map from names to devices: after a successful \<^verbatim>\<open>createDevice\<close> the new device is
  found under its name, with a new open descriptor; \<^verbatim>\<open>closeDevice\<close> answers whether the name was registered,
  removes exactly it and closes exactly its descriptor; all other names keep their devices.
\<close>

theorem registry_functional:
  assumes "registry_reach base (tr, os)" and "fresh_descriptors open_call os"
    and "createDevice open_call tunsetiff nametoindex (tr, os) nt = (Ret d, tr', os')"
    and "closeDevice (tr', os') name = (b, tr'', os'')"
  shows "findDevice tr' n = (if n = ht_name d then Some d else findDevice tr n)
    \<and> 0 \<le> ht_fd d \<and> ht_fd d \<in> os' - os
    \<and> findDevice tr'' n = (if n = name then None else findDevice tr' n)
    \<and> b = (findDevice tr' name \<noteq> None)
    \<and> (name = ht_name d \<longrightarrow> b \<and> ht_fd d \<notin> os'')"
proof -
  note inv = registry_reach_inv [OF assms(1)]
  note c = createDevice_inv [OF assms(3,2) inv]
  note k = closeDevice_inv [OF conjunct1 [OF c] assms(4)]
  note find = findDevice_devices [OF inv] findDevice_devices [OF conjunct1 [OF c]] findDevice_devices [OF conjunct1 [OF k]]
  have "ht_fd d \<notin> os''" if "name = ht_name d"
  proof -
    have "ht_fd d \<notin> base" using c registry_invD(2) [of base tr' os' "ht_name d" d] by simp
    moreover have "m = ht_name d" if "devices tr' m = Some x" "ht_fd x = ht_fd d" for m x
      using registry_invD(4) [OF conjunct1 [OF c] that(1)] that(2) c by simp
    moreover have "devices tr'' = (devices tr')(name := None)" using k by simp
    ultimately show ?thesis
      unfolding registry_invD(5) [OF conjunct1 [OF k]] using \<open>name = ht_name d\<close> by (auto split: if_splits)
  qed
  moreover have "devices tr' = (devices tr)(ht_name d \<mapsto> d)" "devices tr'' = (devices tr')(name := None)"
    "b = (devices tr' name \<noteq> None)" "ht_fd d \<in> os' - os" "0 \<le> ht_fd d"
    using c k by simp_all
  ultimately show ?thesis
    unfolding find by simp
qed

end
