(* ===== verification/Registry_Spec.thy ===== *)
theory Registry_Spec
  imports Host_Tun Simulation
begin

text \<open>
  The specification of \<^verbatim>\<open>host::TunRegistry\<close>: a table from names to devices. The registry, a sorted
  \<^verbatim>\<open>std::map\<close> of owned objects beside the descriptors of the process, refines it.
\<close>

section \<open>The abstract table\<close>

type_synonym device_table = "string \<rightharpoonup> host_tun"

definition table_fds :: "device_table \<Rightarrow> fds" where
  "table_fds m = ht_fd ` ran m"

definition table_add :: "host_tun \<Rightarrow> device_table \<Rightarrow> device_table" where
  "table_add d m = m(ht_name d \<mapsto> d)"

definition table_remove :: "string \<Rightarrow> device_table \<Rightarrow> device_table" where
  "table_remove n m = m(n := None)"

text \<open>
  A device is added with a descriptor that nothing in the process uses; it replaces a device of the
  same name.
\<close>

inductive table_step :: "fds \<Rightarrow> device_table \<Rightarrow> device_table \<Rightarrow> bool" for base where
  add: "0 \<le> ht_fd d \<Longrightarrow> ht_fd d \<notin> base \<union> table_fds m \<Longrightarrow> table_step base m (table_add d m)"
| remove: "table_step base m (table_remove n m)"

text \<open>The promise: names are keys, descriptors are private to their device and to the table.\<close>

definition table_ok :: "fds \<Rightarrow> device_table \<Rightarrow> bool" where
  "table_ok base m \<longleftrightarrow> (\<forall>n d. m n = Some d \<longrightarrow> ht_name d = n) \<and> inj_on ht_fd (ran m) \<and> table_fds m \<inter> base = {}"

lemma ran_table_remove: "ran (table_remove n m) \<subseteq> ran m"
  by (auto simp: table_remove_def ran_def split: if_splits)

lemma ran_table_add: "ran (table_add d m) \<subseteq> insert d (ran m)"
  by (auto simp: table_add_def ran_def split: if_splits)

lemma table_step_ok: "table_step base m m' \<Longrightarrow> table_ok base m \<Longrightarrow> table_ok base m'"
proof (induction rule: table_step.induct)
  case (add d m)
  then have "inj_on ht_fd (ran m)" and "ht_fd d \<notin> ht_fd ` (ran m - {d})"
    unfolding table_ok_def table_fds_def by blast+
  then have "inj_on ht_fd (insert d (ran m))"
    by (simp only: inj_on_insert simp_thms)
  then have "inj_on ht_fd (ran (table_add d m))"
    using ran_table_add by (rule inj_on_subset)
  moreover have "table_fds (table_add d m) \<subseteq> insert (ht_fd d) (table_fds m)"
    using ran_table_add [of d m] by (auto simp: table_fds_def)
  moreover have "\<forall>n e. table_add d m n = Some e \<longrightarrow> ht_name e = n"
    using add by (auto simp: table_ok_def table_add_def)
  ultimately show ?case
    using add unfolding table_ok_def by blast
next
  case (remove m n)
  moreover have "table_fds (table_remove n m) \<subseteq> table_fds m"
    using ran_table_remove [of n m] by (auto simp: table_fds_def)
  moreover have "\<forall>k e. table_remove n m k = Some e \<longrightarrow> ht_name e = k"
    using remove by (auto simp: table_ok_def table_remove_def split: if_splits)
  ultimately show ?case
    using inj_on_subset [OF _ ran_table_remove] unfolding table_ok_def by blast
qed

section \<open>Refinement\<close>

text \<open>A call of the registry's interface that returns or throws.\<close>

inductive registry_step :: "tun_registry \<times> fds \<Rightarrow> tun_registry \<times> fds \<Rightarrow> bool" where
  create_call: "fresh_descriptors open_call os \<Longrightarrow>
    createDevice open_call tunsetiff nametoindex (tr, os) nt = (r, st') \<Longrightarrow> (\<And>u. r \<noteq> UB u) \<Longrightarrow> registry_step (tr, os) st'"
| close_call: "closeDevice (tr, os) n = (b, st') \<Longrightarrow> registry_step (tr, os) st'"

definition table_of :: "tun_registry \<times> fds \<Rightarrow> device_table" where
  "table_of st = devices (fst st)"

lemma table_fds_devices: "table_fds (devices tr) = {ht_fd d | n d. devices tr n = Some d}"
  by (auto simp: table_fds_def ran_def)

lemma registry_inv_fds: "registry_inv base (tr, os) \<Longrightarrow> os = base \<union> table_fds (devices tr)"
  using registry_invD(5) [of base tr os] by (simp add: table_fds_devices)

lemma create_sim:
  assumes "createDevice open_call tunsetiff nametoindex (tr, os) nt = (r, tr', os')"
    and "fresh_descriptors open_call os" and "registry_inv base (tr, os)"
  shows "case r of Ret d \<Rightarrow> devices tr' = table_add d (devices tr) \<and> os' = base \<union> table_fds (devices tr')
        \<and> registry_inv base (tr', os') \<and> table_step base (devices tr) (devices tr')
      | Throw e \<Rightarrow> (tr', os') = (tr, os)
      | UB u \<Rightarrow> True"
  using assms
proof (cases rule: createDevice_cases)
  case (created d)
  have c: "registry_inv base (tr', os') \<and> devices tr' = (devices tr)(ht_name d \<mapsto> d) \<and> ht_fd d \<in> os' - os \<and> 0 \<le> ht_fd d"
    using assms created(1) by (intro createDevice_inv) simp_all
  moreover have "table_step base (devices tr) (table_add d (devices tr))"
    using c registry_inv_fds [OF assms(3)] by (intro table_step.add) auto
  ultimately show ?thesis
    using created(1) registry_inv_fds [of base tr' os'] by (simp add: table_add_def)
qed auto

lemma close_sim:
  assumes "closeDevice (tr, os) n = (b, tr', os')" and "registry_inv base (tr, os)"
  shows "devices tr' = table_remove n (devices tr) \<and> b = (n \<in> dom (devices tr)) \<and> os' = base \<union> table_fds (devices tr')
    \<and> registry_inv base (tr', os')"
  using closeDevice_inv [OF assms(2,1)] registry_inv_fds [of base tr' os'] by (auto simp: table_remove_def)

interpretation registry: simulation registry_step "registry_inv base" "table_step base" table_of for base
proof unfold_locales
  fix s t
  assume "registry_step s t" and inv: "registry_inv base s"
  then have "registry_inv base t \<and> (table_of t = table_of s \<or> table_step base (table_of s) (table_of t))"
  proof (induction rule: registry_step.induct)
    case (create_call open_call os tunsetiff nametoindex tr nt r st')
    then show ?case
      using create_sim [of open_call tunsetiff nametoindex tr os nt r "fst st'" "snd st'" base]
      by (auto simp: table_of_def split: outcome.splits)
  next
    case (close_call tr os n b st')
    then show ?case
      using close_sim [of tr os n b "fst st'" "snd st'" base] by (auto simp: table_of_def intro: table_step.remove)
  qed
  then show "registry_inv base t" and "table_of t = table_of s \<or> table_step base (table_of s) (table_of t)"
    by blast+
qed

lemma registry_reach_steps: "registry_reach base st \<Longrightarrow> \<exists>ctl. registry_step\<^sup>*\<^sup>* (TunRegistry_new ctl, base) st"
  by (induction rule: registry_reach.induct)
    (blast intro: rtranclp.rtrancl_refl rtranclp.rtrancl_into_rtrancl registry_step.intros)+

lemma table_ok_empty: "table_ok base (table_of (TunRegistry_new ctl, os))"
  by (simp add: table_ok_def table_fds_def table_of_def devices_def TunRegistry_new_def)

text \<open>
  C14. The registry refines a table from names to devices, call by call: \<^verbatim>\<open>findDevice\<close> is its lookup,
  \<^verbatim>\<open>closeDevice\<close> its removal and answers whether the name was there, a successful \<^verbatim>\<open>createDevice\<close> adds the
  returned device under its name with a descriptor nothing else uses, a failed one changes nothing;
  after each, the open descriptors of the process are those from outside and those of the table, and
  destroying the registry leaves those from outside.
\<close>

theorem registry_refines_table:
  assumes "registry_reach base (tr, os)"
  shows "findDevice tr = table_of (tr, os) \<and> os = base \<union> table_fds (table_of (tr, os)) \<and> table_ok base (table_of (tr, os))
    \<and> (\<forall>n b st. closeDevice (tr, os) n = (b, st) \<longrightarrow>
         table_of st = table_remove n (table_of (tr, os)) \<and> b = (n \<in> dom (table_of (tr, os)))
         \<and> snd st = base \<union> table_fds (table_of st))
    \<and> (\<forall>d st. fresh_descriptors open_call os \<longrightarrow>
         createDevice open_call tunsetiff nametoindex (tr, os) nt = (Ret d, st) \<longrightarrow>
         table_of st = table_add d (table_of (tr, os)) \<and> 0 \<le> ht_fd d \<and> ht_fd d \<notin> os
         \<and> snd st = base \<union> table_fds (table_of st))
    \<and> (\<forall>e st. fresh_descriptors open_call os \<longrightarrow>
         createDevice open_call tunsetiff nametoindex (tr, os) nt = (Throw e, st) \<longrightarrow> st = (tr, os))
    \<and> TunRegistry_delete (tr, os) = base"
proof -
  note inv = registry_reach_inv [OF assms]
  obtain ctl where "registry_step\<^sup>*\<^sup>* (TunRegistry_new ctl, base) (tr, os)"
    using registry_reach_steps [OF assms] by blast
  moreover have "registry_inv base (TunRegistry_new ctl, base)"
    by (rule registry_reach_inv [OF registry_start])
  ultimately have "table_ok base (table_of (tr, os))"
    using registry.transfer [where P = "table_ok base" and base = base] table_step_ok table_ok_empty by blast
  moreover have "table_of st = table_remove n (table_of (tr, os)) \<and> b = (n \<in> dom (table_of (tr, os)))
      \<and> snd st = base \<union> table_fds (table_of st)" if "closeDevice (tr, os) n = (b, st)" for n b st
    using close_sim [of tr os n b "fst st" "snd st", OF _ inv] that by (simp add: table_of_def)
  moreover have "table_of st = table_add d (table_of (tr, os)) \<and> 0 \<le> ht_fd d \<and> ht_fd d \<notin> os
      \<and> snd st = base \<union> table_fds (table_of st)"
    if "fresh_descriptors open_call os" "createDevice open_call tunsetiff nametoindex (tr, os) nt = (Ret d, st)" for d st
    using createDevice_inv [of open_call tunsetiff nametoindex tr os nt d "fst st" "snd st" base]
      create_sim [of open_call tunsetiff nametoindex tr os nt "Ret d" "fst st" "snd st" base] that inv
    by (simp add: table_of_def)
  moreover have "st = (tr, os)"
    if "fresh_descriptors open_call os" "createDevice open_call tunsetiff nametoindex (tr, os) nt = (Throw e, st)" for e st
    using create_sim [of open_call tunsetiff nametoindex tr os nt "Throw e" "fst st" "snd st" base] that inv by simp
  moreover have "findDevice tr = table_of (tr, os) \<and> os = base \<union> table_fds (table_of (tr, os))"
    using findDevice_devices [OF inv] registry_inv_fds [OF inv] by (simp add: table_of_def)
  moreover have "TunRegistry_delete (tr, os) = base" by (rule delete_base [OF inv])
  ultimately show ?thesis by blast
qed

theorem registry_refines_table_witness:
  "\<exists>st b st'. createDevice (\<lambda>_. (4, 0)) demo_tunsetiff (\<lambda>_. 9) (TunRegistry_new ''/dev/net/tun'', {0}) ''tun%d''
       = (Ret (HostTun_new 4 9 ''tun0''), st)
     \<and> table_of st = [''tun0'' \<mapsto> HostTun_new 4 9 ''tun0''] \<and> snd st = {0, 4}
     \<and> closeDevice st ''tun0'' = (b, st') \<and> b \<and> table_of st' = Map.empty \<and> snd st' = {0}"
proof -
  let ?tr = "\<lparr>tr_devices = [(''tun0'', HostTun_new 4 9 ''tun0'')], tr_tunCtl = ''/dev/net/tun''\<rparr>"
  obtain b st' where c: "closeDevice (?tr, {0, 4}) ''tun0'' = (b, st')" using prod.exhaust by blast
  have r: "registry_reach {0} (?tr, {0, 4})"
    by (rule registry_create [OF registry_start demo_fresh demo_create]) simp
  have "table_of (?tr, {0, 4}) = [''tun0'' \<mapsto> HostTun_new 4 9 ''tun0'']"
    by (simp add: table_of_def devices_def)
  moreover have "table_of st' = table_remove ''tun0'' (table_of (?tr, {0, 4})) \<and> b = (''tun0'' \<in> dom (table_of (?tr, {0, 4})))
      \<and> snd st' = {0} \<union> table_fds (table_of st')"
    using registry_refines_table [OF r] c by blast
  ultimately have "b \<and> table_of st' = Map.empty \<and> snd st' = {0}"
    by (simp add: table_remove_def table_fds_def)
  with \<open>table_of (?tr, {0, 4}) = _\<close> demo_create c show ?thesis
    by (intro exI [of _ "(?tr, {0, 4})"] exI [of _ b] exI [of _ st']) (simp only: snd_conv simp_thms)
qed

end
