(* ===== verification/Host_Admin.thy ===== *)
theory Host_Admin
  imports Host_Tun
begin

text \<open>
  Administration of tunnel devices over netlink (\<^verbatim>\<open>host/TunAdminContext.hpp\<close>, \<^verbatim>\<open>host/TunAdminContext.cpp\<close>):
  the owning wrapper \<^verbatim>\<open>RtnlLink\<close>, the context with its socket, and the two administrative operations.
  The netlink library is an argument; pointers it returns are numbers, a null pointer is \<open>None\<close>.
\<close>

section \<open>RtnlLink\<close>

record rtnl_wrapper =
  rl_link :: "nat option"

definition RtnlLink_wrap :: "nat option \<Rightarrow> rtnl_wrapper" where
  "RtnlLink_wrap link = \<lparr>rl_link = link\<rparr>"

text \<open>The pointers passed to \<^verbatim>\<open>rtnl_link_put\<close>.\<close>

definition RtnlLink_close :: "rtnl_wrapper \<Rightarrow> nat list" where
  "RtnlLink_close l = (case rl_link l of None \<Rightarrow> [] | Some p \<Rightarrow> [p])"

definition RtnlLink_new :: "nat option \<Rightarrow> rtnl_wrapper outcome" where
  "RtnlLink_new alloc =
     (case alloc of None \<Rightarrow> Throw (RuntimeError ''Could not allocate rtnl_link'') | Some p \<Rightarrow> Ret \<lparr>rl_link = Some p\<rparr>)"

text \<open>\<open>got\<close> is the result of \<^verbatim>\<open>rtnl_link_get_kernel\<close> and the pointer it stored.\<close>

definition RtnlLink_get :: "int \<times> nat \<Rightarrow> rtnl_wrapper outcome" where
  "RtnlLink_get got =
     (let (err, link) = got
      in if err < 0 then Throw (RuntimeError ''Could not get rtnl_link'') else Ret (RtnlLink_wrap (Some link)))"

definition RtnlLink_delete :: "rtnl_wrapper \<Rightarrow> nat list" where
  "RtnlLink_delete l = RtnlLink_close l"

definition RtnlLink_move :: "rtnl_wrapper \<Rightarrow> rtnl_wrapper \<times> rtnl_wrapper" where
  "RtnlLink_move other = (\<lparr>rl_link = rl_link other\<rparr>, other\<lparr>rl_link := None\<rparr>)"

definition RtnlLink_assign :: "rtnl_wrapper \<Rightarrow> rtnl_wrapper \<Rightarrow> nat list \<times> rtnl_wrapper \<times> rtnl_wrapper" where
  "RtnlLink_assign l other = (RtnlLink_close l, l\<lparr>rl_link := rl_link other\<rparr>, other\<lparr>rl_link := None\<rparr>)"

definition RtnlLink_assign_self :: "rtnl_wrapper \<Rightarrow> nat list \<times> rtnl_wrapper" where
  "RtnlLink_assign_self l = (RtnlLink_close l, l\<lparr>rl_link := None\<rparr>)"

definition RtnlLink_class :: "(rtnl_wrapper, nat) handle_class" where
  "RtnlLink_class = \<lparr>hc_move = RtnlLink_move, hc_assign = RtnlLink_assign, hc_assign_self = RtnlLink_assign_self,
     hc_destroy = RtnlLink_delete\<rparr>"

lemmas rtnl_link_defs = RtnlLink_wrap_def RtnlLink_close_def RtnlLink_new_def RtnlLink_get_def RtnlLink_delete_def
  RtnlLink_move_def RtnlLink_assign_def RtnlLink_assign_self_def RtnlLink_class_def

interpretation rtnl_link: movable_handle RtnlLink_class rl_link
  by unfold_locales (auto simp: rtnl_link_defs opt_list_def)

section \<open>TunAdminContext\<close>

record admin_context =
  ac_nl :: "nat option"

definition TunAdminContext_close :: "admin_context \<Rightarrow> nat list" where
  "TunAdminContext_close c = (case ac_nl c of None \<Rightarrow> [] | Some p \<Rightarrow> [p])"

text \<open>
  The constructor: \<open>alloc\<close> is \<^verbatim>\<open>nl_socket_alloc\<close>, \<open>connect\<close> is \<^verbatim>\<open>nl_connect\<close> to the routing family. A
  constructor that throws does not run the destructor; the sockets that exist then are returned.
\<close>

definition TunAdminContext_new ::
  "nat option \<Rightarrow> (nat \<Rightarrow> int) \<Rightarrow> (int \<Rightarrow> string) \<Rightarrow> admin_context outcome \<times> nat list" where
  "TunAdminContext_new alloc connect geterror =
     (case alloc of
        None \<Rightarrow> (Throw (RuntimeError ''Could not open netlink socket''), [])
      | Some nl \<Rightarrow>
          let err = connect nl
          in if err < 0 then (Throw (RuntimeError (geterror err)), [nl]) else (Ret \<lparr>ac_nl = Some nl\<rparr>, []))"

definition TunAdminContext_delete :: "admin_context \<Rightarrow> nat list" where
  "TunAdminContext_delete c = TunAdminContext_close c"

definition TunAdminContext_move :: "admin_context \<Rightarrow> admin_context \<times> admin_context" where
  "TunAdminContext_move other = (\<lparr>ac_nl = ac_nl other\<rparr>, other\<lparr>ac_nl := None\<rparr>)"

definition TunAdminContext_assign :: "admin_context \<Rightarrow> admin_context \<Rightarrow> nat list \<times> admin_context \<times> admin_context" where
  "TunAdminContext_assign c rhs = (TunAdminContext_close c, c\<lparr>ac_nl := ac_nl rhs\<rparr>, rhs\<lparr>ac_nl := None\<rparr>)"

definition TunAdminContext_assign_self :: "admin_context \<Rightarrow> nat list \<times> admin_context" where
  "TunAdminContext_assign_self c = (TunAdminContext_close c, c\<lparr>ac_nl := None\<rparr>)"

definition TunAdminContext_class :: "(admin_context, nat) handle_class" where
  "TunAdminContext_class = \<lparr>hc_move = TunAdminContext_move, hc_assign = TunAdminContext_assign,
     hc_assign_self = TunAdminContext_assign_self, hc_destroy = TunAdminContext_delete\<rparr>"

lemmas admin_defs = TunAdminContext_close_def TunAdminContext_delete_def TunAdminContext_move_def
  TunAdminContext_assign_def TunAdminContext_assign_self_def TunAdminContext_class_def

interpretation admin: movable_handle TunAdminContext_class ac_nl
  by unfold_locales (auto simp: admin_defs opt_list_def)

section \<open>Operations on links\<close>

text \<open>
  A change request, and the library over a kernel state \<open>'k\<close>: getting a link by interface index (the result,
  and the pointer that is stored if it is not negative), allocating an empty one, sending the change. The
  library needs a socket: a null pointer, which a context that was moved from holds, is dereferenced by it.
  The MTU is an \<^verbatim>\<open>unsigned int\<close> of the library.
\<close>

datatype link_change = SetUp | UnsetUp | SetMtu u32

record 'k rtnl =
  rn_get :: "'k \<Rightarrow> nat \<Rightarrow> int \<Rightarrow> int \<times> nat"
  rn_alloc :: "nat option"
  rn_change :: "'k \<Rightarrow> nat \<Rightarrow> nat option \<Rightarrow> link_change \<Rightarrow> int \<times> 'k"
  rn_geterror :: "int \<Rightarrow> string"

text \<open>The links that the library hands out with these answers, each to be given back with \<^verbatim>\<open>rtnl_link_put\<close>.\<close>

definition got_link :: "int \<times> nat \<Rightarrow> nat list" where
  "got_link got = (let (err, link) = got in if err < 0 then [] else [link])"

text \<open>
  The common part of both operations. The two wrappers are local objects, destroyed in reverse order on
  every path on which they were constructed. Returned are also the links the library handed out and the links
  that the destructors gave back.
\<close>

definition change_link ::
  "'k rtnl \<Rightarrow> admin_context \<Rightarrow> 'k \<Rightarrow> int \<Rightarrow> link_change \<Rightarrow> unit outcome \<times> 'k \<times> nat list \<times> nat list" where
  "change_link R c k ifIndex what_to_do =
     (case ac_nl c of
        None \<Rightarrow> (UB NullDeref, k, [], [])
      | Some nl \<Rightarrow>
          let got = rn_get R k nl ifIndex
          in case RtnlLink_get got of
               Ret link \<Rightarrow>
                 (let obtained = got_link got @ opt_list (rn_alloc R)
                  in case RtnlLink_new (rn_alloc R) of
                       Ret change \<Rightarrow>
                         (let (err, k') = rn_change R k nl (rl_link link) what_to_do;
                              released = RtnlLink_delete change @ RtnlLink_delete link
                          in if err < 0 then (Throw (RuntimeError (rn_geterror R err)), k', obtained, released)
                             else (Ret (), k', obtained, released))
                     | Throw e \<Rightarrow> (Throw e, k, obtained, RtnlLink_delete link)
                     | UB u \<Rightarrow> (UB u, k, obtained, RtnlLink_delete link))
             | Throw e \<Rightarrow> (Throw e, k, got_link got, [])
             | UB u \<Rightarrow> (UB u, k, got_link got, []))"

definition setLinkState ::
  "'k rtnl \<Rightarrow> admin_context \<Rightarrow> 'k \<Rightarrow> host_tun \<Rightarrow> bool \<Rightarrow> unit outcome \<times> 'k \<times> nat list \<times> nat list" where
  "setLinkState R c k tun up = change_link R c k (ht_ifIndex tun) (if up then SetUp else UnsetUp)"

definition setLinkMtu ::
  "'k rtnl \<Rightarrow> admin_context \<Rightarrow> 'k \<Rightarrow> host_tun \<Rightarrow> size_t \<Rightarrow> unit outcome \<times> 'k \<times> nat list \<times> nat list" where
  "setLinkMtu R c k tun mtu = change_link R c k (ht_ifIndex tun) (SetMtu (ucast mtu))"

section \<open>Properties\<close>

lemma change_link_released:
  "change_link R c k i ch = (r, k', obtained, released) \<Longrightarrow> mset released = mset obtained"
  by (auto simp: change_link_def rtnl_link_defs got_link_def Let_def split: option.splits if_splits prod.splits)

text \<open>
  C22. Netlink handles are released exactly once: for any program that moves, assigns and destroys
  contexts or link wrappers until none is left, every handle that was owned is released exactly once; and on
  every path of the administrative operations, exceptions included, exactly the links that the library handed
  out are given back. Only a context whose connection fails in the constructor leaks its socket.
\<close>

theorem netlink_handles_released:
  "(run_cmds TunAdminContext_class cs ([], st) = (closed, st') \<longrightarrow> set st' \<subseteq> {None} \<longrightarrow> mset closed = owned ac_nl st)
   \<and> (run_cmds RtnlLink_class cs ([], lst) = (put, lst') \<longrightarrow> set lst' \<subseteq> {None} \<longrightarrow> mset put = owned rl_link lst)
   \<and> (setLinkState R c k tun up = (r, k', obtained, released) \<longrightarrow> mset released = mset obtained)
   \<and> (setLinkMtu R c k tun mtu = (s, k'', obtained', released') \<longrightarrow> mset released' = mset obtained')
   \<and> (case TunAdminContext_new alloc connect geterror of
        (Throw e, leaked) \<Rightarrow> leaked = (case alloc of None \<Rightarrow> [] | Some nl \<Rightarrow> [nl])
      | (Ret x, leaked) \<Rightarrow> leaked = [] \<and> alloc = ac_nl x \<and> alloc \<noteq> None
      | (UB u, leaked) \<Rightarrow> False)"
proof -
  have "setLinkState R c k tun up = (r, k', obtained, released) \<longrightarrow> mset released = mset obtained"
    and "setLinkMtu R c k tun mtu = (s, k'', obtained', released') \<longrightarrow> mset released' = mset obtained'"
    by (auto simp: setLinkState_def setLinkMtu_def dest: change_link_released)
  moreover have "case TunAdminContext_new alloc connect geterror of
        (Throw e, leaked) \<Rightarrow> leaked = (case alloc of None \<Rightarrow> [] | Some nl \<Rightarrow> [nl])
      | (Ret x, leaked) \<Rightarrow> leaked = [] \<and> alloc = ac_nl x \<and> alloc \<noteq> None
      | (UB u, leaked) \<Rightarrow> False"
    by (auto simp: TunAdminContext_new_def Let_def split: option.split)
  ultimately show ?thesis
    using admin.released_exactly_once rtnl_link.released_exactly_once by blast
qed

text \<open>A kernel that refuses every change, and one in which there is no memory for the second link.\<close>

definition refusing_rtnl :: "nat option \<Rightarrow> unit rtnl" where
  "refusing_rtnl alloc = \<lparr>rn_get = (\<lambda>k nl i. (0, 7)), rn_alloc = alloc, rn_change = (\<lambda>k nl p ch. (- 1, ())), rn_geterror = (\<lambda>_. ''no'')\<rparr>"

theorem netlink_handles_released_witness:
  "mset (fst (run_cmds TunAdminContext_class [MoveConstruct 0, Destroy 0, Destroy 1] ([], [Some \<lparr>ac_nl = Some 3\<rparr>]))) = {#3#}
   \<and> (\<exists>put. setLinkState (refusing_rtnl (Some 8)) \<lparr>ac_nl = Some 3\<rparr> () (HostTun_new 4 9 ''tun0'') True
        = (Throw (RuntimeError ''no''), (), [7, 8], put) \<and> mset put = {#7, 8#})
   \<and> (\<exists>put. setLinkMtu (refusing_rtnl None) \<lparr>ac_nl = Some 3\<rparr> () (HostTun_new 4 9 ''tun0'') 256
        = (Throw (RuntimeError ''Could not allocate rtnl_link''), (), [7], put) \<and> mset put = {#7#})"
proof -
  have r: "run_cmds TunAdminContext_class [MoveConstruct 0, Destroy 0, Destroy 1] ([], [Some \<lparr>ac_nl = Some 3\<rparr>]) = ([3], [None, None])"
    by (simp add: run_cmds_def object_at_def admin_defs)
  have s: "\<exists>put. setLinkState (refusing_rtnl (Some 8)) \<lparr>ac_nl = Some 3\<rparr> () (HostTun_new 4 9 ''tun0'') True
      = (Throw (RuntimeError ''no''), (), [7, 8], put)"
    by (simp add: setLinkState_def change_link_def refusing_rtnl_def RtnlLink_get_def RtnlLink_new_def got_link_def)
  have m: "\<exists>put. setLinkMtu (refusing_rtnl None) \<lparr>ac_nl = Some 3\<rparr> () (HostTun_new 4 9 ''tun0'') 256
      = (Throw (RuntimeError ''Could not allocate rtnl_link''), (), [7], put)"
    by (simp add: setLinkMtu_def change_link_def refusing_rtnl_def RtnlLink_get_def RtnlLink_new_def got_link_def)
  have "mset [3] = owned ac_nl [Some \<lparr>ac_nl = Some 3\<rparr>]"
    by (rule netlink_handles_released [THEN conjunct1, rule_format, OF r]) simp
  with s m netlink_handles_released [where R = "refusing_rtnl (Some 8)"] netlink_handles_released [where R = "refusing_rtnl None"]
  show ?thesis by (simp only: r fst_conv) (fastforce simp: add_mset_commute)
qed

text \<open>Interfaces as the kernel keeps them, and a library that changes the interface it was asked to get.\<close>

record iface =
  if_up :: bool
  if_mtu :: nat

fun apply_change :: "link_change \<Rightarrow> iface \<Rightarrow> iface" where
  "apply_change SetUp f = f\<lparr>if_up := True\<rparr>"
| "apply_change UnsetUp f = f\<lparr>if_up := False\<rparr>"
| "apply_change (SetMtu m) f = f\<lparr>if_mtu := unat m\<rparr>"

definition changes_interface :: "'k rtnl \<Rightarrow> ('k \<Rightarrow> int \<Rightarrow> iface) \<Rightarrow> bool" where
  "changes_interface R view_if \<longleftrightarrow>
     (\<forall>k nl i err p ch err' k'. rn_get R k nl i = (err, p) \<longrightarrow> err \<ge> 0 \<longrightarrow> rn_change R k nl (Some p) ch = (err', k') \<longrightarrow>
        (if err' < 0 then view_if k' = view_if k else view_if k' = (view_if k)(i := apply_change ch (view_if k i))))"

lemma change_link_effect:
  assumes "changes_interface R view_if" and "change_link R c k i ch = (r, k', obtained, released)"
  shows "view_if k' = (if r = Ret () then (view_if k)(i := apply_change ch (view_if k i)) else view_if k)
    \<and> (if ac_nl c = None then r = UB NullDeref else r = Ret () \<or> (\<exists>w. r = Throw (RuntimeError w)))"
proof (cases "ac_nl c")
  case None
  with assms(2) show ?thesis by (auto simp: change_link_def)
next
  case (Some nl)
  obtain err p where g: "rn_get R k nl i = (err, p)" by fastforce
  obtain err' k1 where ch: "rn_change R k nl (Some p) ch = (err', k1)" by fastforce
  have eff: "0 \<le> err \<Longrightarrow> if err' < 0 then view_if k1 = view_if k else view_if k1 = (view_if k)(i := apply_change ch (view_if k i))"
    using assms(1) g ch unfolding changes_interface_def by blast
  show ?thesis
    using assms(2) eff g ch Some
    by (cases "rn_alloc R") (auto simp: change_link_def RtnlLink_get_def RtnlLink_new_def RtnlLink_wrap_def Let_def split: if_splits)
qed

text \<open>
  The administrative operations do what is documented or throw: on return the interface of the
  device is up exactly if requested, or its MTU is the requested one reduced to 32 bits (a larger
  argument is silently truncated); every other interface, and the other attribute, is as before. An
  exception leaves every interface as it was. A context that was moved from has no socket, and both are undefined.
\<close>

theorem admin_operations:
  assumes "changes_interface R view_if"
    and "setLinkState R c k tun up = (r, k', o1, r1)" and "setLinkMtu R c k tun mtu = (s, k'', o2, r2)"
  shows "view_if k' = (if r = Ret () then (view_if k)(ht_ifIndex tun := (view_if k (ht_ifIndex tun))\<lparr>if_up := up\<rparr>) else view_if k)
    \<and> view_if k'' = (if s = Ret () then (view_if k)(ht_ifIndex tun := (view_if k (ht_ifIndex tun))\<lparr>if_mtu := unat mtu mod 2 ^ 32\<rparr>) else view_if k)
    \<and> (if ac_nl c = None then r = UB NullDeref else r = Ret () \<or> (\<exists>w. r = Throw (RuntimeError w)))
    \<and> (if ac_nl c = None then s = UB NullDeref else s = Ret () \<or> (\<exists>w. s = Throw (RuntimeError w)))"
proof -
  have "unat (ucast mtu :: u32) = unat mtu mod 2 ^ 32"
    by (simp add: unsigned_ucast_eq take_bit_eq_mod)
  then show ?thesis
    using change_link_effect [OF assms(1), of c k "ht_ifIndex tun" "if up then SetUp else UnsetUp" r k' o1 r1]
      change_link_effect [OF assms(1), of c k "ht_ifIndex tun" "SetMtu (ucast mtu)" s k'' o2 r2] assms(2,3)
    by (cases "ac_nl c") (simp_all add: setLinkState_def setLinkMtu_def)
qed

definition demo_rtnl :: "(int \<Rightarrow> iface) rtnl" where
  "demo_rtnl = \<lparr>rn_get = (\<lambda>k nl i. (if i < 0 then - 1 else 0, nat i)), rn_alloc = Some 99,
     rn_change = (\<lambda>k nl p ch. case p of None \<Rightarrow> (- 1, k) | Some p \<Rightarrow> (0, k(int p := apply_change ch (k (int p))))),
     rn_geterror = (\<lambda>_. [])\<rparr>"

lemma demo_rtnl_law: "changes_interface demo_rtnl (\<lambda>k. k)"
  by (auto simp: changes_interface_def demo_rtnl_def split: if_splits)

end
