(* ===== verification/Contracts.thy ===== *)
theory Contracts
  imports Packet Registry_Spec Host_Admin
begin

text \<open>
  The contracts that the headers document (\<^verbatim>\<open>include/Packet.hpp\<close>, \<^verbatim>\<open>include/host/TunDevice.hpp\<close>,
  \<^verbatim>\<open>host/TunRegistry.hpp\<close>, \<^verbatim>\<open>host/TunAdminContext.hpp\<close>) as predicates on calls and their results, and to which
  of them the code lives up: each theorem says exactly when.
\<close>

section \<open>Packet\<close>

definition Packet_new_post :: "byte list \<Rightarrow> 64 word \<Rightarrow> size_t \<Rightarrow> packet \<Rightarrow> bool" where
  "Packet_new_post data offset len q \<longleftrightarrow>
     Packet_data q = drop (unat offset) data \<and> Packet_length q = len \<and> blk_deleter (pk_data q) = ArrayDelete"

definition Packet_nocapture_post :: "byte list \<Rightarrow> 64 word \<Rightarrow> size_t \<Rightarrow> packet \<Rightarrow> bool" where
  "Packet_nocapture_post data offset len q \<longleftrightarrow>
     Packet_data q = drop (unat offset) data \<and> Packet_length q = len \<and> blk_deleter (pk_data q) = NullDelete"

text \<open>
  \<^verbatim>\<open>skip\<close>: the same block, starting at most \<^verbatim>\<open>bytes\<close> later, no longer than before, and empty if \<^verbatim>\<open>bytes\<close> is
  larger than the length. \<^verbatim>\<open>truncate\<close>: the same start, at most \<^verbatim>\<open>length\<close> long, and empty if \<^verbatim>\<open>length\<close> is larger
  than the length.
\<close>

definition Packet_skip_post :: "packet \<Rightarrow> size_t \<Rightarrow> packet \<Rightarrow> bool" where
  "Packet_skip_post p bytes q \<longleftrightarrow> pk_data q = pk_data p
     \<and> unat (pk_offset p) \<le> unat (pk_offset q) \<and> unat (pk_offset q) \<le> unat (pk_offset p) + unat bytes
     \<and> Packet_length q \<le> Packet_length p \<and> (bytes > Packet_length p \<longrightarrow> Packet_length q = 0)"

definition Packet_truncate_post :: "packet \<Rightarrow> size_t \<Rightarrow> packet \<Rightarrow> bool" where
  "Packet_truncate_post p len q \<longleftrightarrow> pk_data q = pk_data p \<and> pk_offset q = pk_offset p
     \<and> Packet_length q \<le> len \<and> (len > Packet_length p \<longrightarrow> Packet_length q = 0)"

lemma skip_offset:
  assumes "wf_packet p"
  shows "unat (pk_offset (Packet_skip p n)) = unat (pk_offset p) + min (unat n) (unat (pk_length p))"
proof (cases "n \<le> pk_length p")
  case True
  then show ?thesis
    using unat_offset_skip [OF assms True] by (simp add: Packet_skip_le min_def word_le_nat_alt)
next
  case False
  then have "Packet_skip p n = p\<lparr>pk_offset := pk_offset p + pk_length p, pk_length := 0\<rparr>"
    by (simp add: Packet_skip_gt Packet_skip_le not_le)
  with False show ?thesis
    using unat_offset_skip [OF assms order_refl] by (simp add: min_def word_le_nat_alt)
qed

text \<open>
  C20. Packets never leave their block, \<^verbatim>\<open>truncate\<close> and \<^verbatim>\<open>skip\<close> cut the shown bytes in two at any \<open>n\<close> (clamped to
  the length) without loss or repetition, and the documented contracts of the constructors and of \<^verbatim>\<open>skip\<close>
  hold for every argument, that of \<^verbatim>\<open>truncate\<close> exactly up to the packet's length: beyond it the documentation
  promises an empty packet and the code returns the whole one.
\<close>

theorem packet_contracts:
  assumes "wf_packet p"
  shows "Packet_new_post data offset len (Packet_new a data offset len)
    \<and> Packet_nocapture_post data offset len (Packet_nocapture a data offset len)
    \<and> Packet_skip_post p n (Packet_skip p n)
    \<and> (Packet_truncate_post p n (Packet_truncate p n) \<longleftrightarrow> n \<le> Packet_length p \<or> Packet_length p = 0)
    \<and> wf_packet (Packet_skip p n) \<and> wf_packet (Packet_truncate p n)
    \<and> view (Packet_truncate p n) = take (unat n) (view p)
    \<and> view (Packet_truncate p n) @ view (Packet_skip p n) = view p"
proof -
  have "Packet_skip_post p n (Packet_skip p n)"
    using skip_offset [OF assms, of n] length_skip [of p n]
    by (auto simp: Packet_skip_post_def Packet_length_def word_le_nat_alt word_less_nat_alt unat_eq_zero [symmetric])
      (simp add: Packet_skip_def Let_def)
  moreover note packet_split [OF assms, of n]
  ultimately show ?thesis
    by (auto simp: Packet_new_post_def Packet_nocapture_post_def Packet_truncate_post_def Packet_new_def
        Packet_nocapture_def Packet_data_def Packet_length_def Packet_truncate_def Let_def)
qed

theorem packet_contracts_witness:
  "Packet_skip_post (Packet_new 1 [10, 20, 30] 0 3) 7 (Packet_skip (Packet_new 1 [10, 20, 30] 0 3) 7)
   \<and> \<not> Packet_truncate_post (Packet_new 1 [10, 20, 30] 0 3) 7 (Packet_truncate (Packet_new 1 [10, 20, 30] 0 3) 7)"
  using packet_contracts [of "Packet_new 1 [10, 20, 30] 0 3" "[]" 0 0 0 7]
  by (simp add: wf_packet_def Packet_new_def Packet_length_def)

section \<open>Tunnel devices\<close>

definition HostTun_fd :: "host_tun \<Rightarrow> int" where
  "HostTun_fd d = ht_fd d"

definition HostTun_ifIndex :: "host_tun \<Rightarrow> int" where
  "HostTun_ifIndex d = ht_ifIndex d"

definition HostTun_name :: "host_tun \<Rightarrow> string" where
  "HostTun_name d = ht_name d"

lemmas accessor_defs = HostTun_fd_def HostTun_ifIndex_def HostTun_name_def

text \<open>The state in which a move leaves its source.\<close>

definition HostTun_move_post :: "host_tun \<Rightarrow> host_tun \<Rightarrow> host_tun \<Rightarrow> bool" where
  "HostTun_move_post other d other' \<longleftrightarrow> d = other
     \<and> HostTun_fd other' = - 1 \<and> HostTun_ifIndex other' = - 1 \<and> HostTun_name other' = []"

definition HostTun_assign_post :: "host_tun \<Rightarrow> int list \<Rightarrow> host_tun \<Rightarrow> host_tun \<Rightarrow> host_tun \<Rightarrow> bool" where
  "HostTun_assign_post d closed rhs d' rhs' \<longleftrightarrow> set closed = {fd. 0 \<le> fd \<and> fd = HostTun_fd d} \<and> d' = rhs
     \<and> HostTun_fd rhs' = - 1 \<and> HostTun_ifIndex rhs' = - 1 \<and> HostTun_name rhs' = []"

text \<open>
  \<^verbatim>\<open>dup\<close>: a device for the same interface with a descriptor of its own, or \<^verbatim>\<open>std::system_error\<close>.
\<close>

definition HostTun_dup_post :: "fds \<Rightarrow> host_tun \<Rightarrow> host_tun outcome \<Rightarrow> bool" where
  "HostTun_dup_post os d r \<longleftrightarrow>
     (case r of Ret e \<Rightarrow> HostTun_fd e \<notin> os \<and> HostTun_ifIndex e = HostTun_ifIndex d \<and> HostTun_name e = HostTun_name d
      | Throw e \<Rightarrow> (\<exists>errno. e = SystemError errno) | UB u \<Rightarrow> False)"

text \<open>
  C25. Moving a device keeps its documented contract exactly if the standard library empties a string it
  moves from (\<open>junk = []\<close>), which it does not promise; move assignment keeps it only if, besides, both
  devices already had the same interface index, since the index is not taken over. Duplicating keeps it
  whenever \<^verbatim>\<open>dup(2)\<close> returns unused descriptors.
\<close>

theorem device_contracts:
  assumes "\<forall>fd. fst (dup_call fd) \<ge> 0 \<longrightarrow> fst (dup_call fd) \<notin> os"
  shows "(case HostTun_move junk other of (d, other') \<Rightarrow> HostTun_move_post other d other' \<longleftrightarrow> junk = [])
    \<and> (case HostTun_assign junk d rhs of (closed, d', rhs') \<Rightarrow>
         HostTun_assign_post d closed rhs d' rhs' \<longleftrightarrow> junk = [] \<and> HostTun_ifIndex d = HostTun_ifIndex rhs)
    \<and> HostTun_dup_post os d (HostTun_dup dup_call d)"
proof -
  have "fst (dup_call (ht_fd d)) \<ge> 0 \<Longrightarrow> fst (dup_call (ht_fd d)) \<notin> os"
    using assms by blast
  then have "HostTun_dup_post os d (HostTun_dup dup_call d)"
    by (auto simp: HostTun_dup_post_def HostTun_dup_def HostTun_new_def accessor_defs split: prod.split)
  moreover have "case HostTun_assign junk d rhs of (closed, d', rhs') \<Rightarrow>
      HostTun_assign_post d closed rhs d' rhs' \<longleftrightarrow> junk = [] \<and> HostTun_ifIndex d = HostTun_ifIndex rhs"
    by (cases d; cases rhs) (auto simp: HostTun_assign_post_def HostTun_assign_def HostTun_close_def accessor_defs)
  ultimately show ?thesis
    by (simp add: HostTun_move_post_def HostTun_move_def accessor_defs)
qed

theorem device_contracts_witness:
  "HostTun_dup_post {0, 4} (HostTun_new 4 9 ''tun0'') (HostTun_dup (\<lambda>_. (5, 0)) (HostTun_new 4 9 ''tun0''))
   \<and> (case HostTun_assign [] (HostTun_new 4 9 ''a'') (HostTun_new 5 8 ''b'') of (closed, d', rhs') \<Rightarrow>
        \<not> HostTun_assign_post (HostTun_new 4 9 ''a'') closed (HostTun_new 5 8 ''b'') d' rhs')"
  using device_contracts [where dup_call = "\<lambda>_. (5, 0)" and os = "{0, 4}" and d = "HostTun_new 4 9 ''tun0''"]
    device_contracts [where dup_call = "\<lambda>_. (5, 0)" and os = "{0, 4}" and junk = "[]" and d = "HostTun_new 4 9 ''a''"
      and rhs = "HostTun_new 5 8 ''b''"]
  by (simp add: HostTun_ifIndex_def HostTun_new_def split: prod.splits)

section \<open>The registry\<close>

text \<open>
  A name matches a template if it is the template with its first \<^verbatim>\<open>%d\<close> replaced by a number, or the
  template itself if there is none.
\<close>

definition is_digit :: "char \<Rightarrow> bool" where
  "is_digit c \<longleftrightarrow> c \<in> set ''0123456789''"

fun matches_template :: "string \<Rightarrow> string \<Rightarrow> bool" where
  "matches_template [] n = (n = [])"
| "matches_template (c # cs) n =
     (if c = CHR ''%'' \<and> take 1 cs = ''d''
      then list_ex (\<lambda>i. list_all is_digit (take i n) \<and> drop i n = tl cs) [1..<Suc (length n)]
      else (case n of [] \<Rightarrow> False | x # xs \<Rightarrow> x = c \<and> matches_template cs xs))"

definition createDevice_post :: "string \<Rightarrow> host_tun \<Rightarrow> bool" where
  "createDevice_post nameTemplate result \<longleftrightarrow>
     0 \<le> HostTun_fd result \<and> 0 \<le> HostTun_ifIndex result \<and> matches_template nameTemplate (HostTun_name result)"

definition findDevice_post :: "tun_registry \<Rightarrow> string \<Rightarrow> host_tun option \<Rightarrow> bool" where
  "findDevice_post tr name result \<longleftrightarrow>
     (case result of
        None \<Rightarrow> \<not> list_ex (\<lambda>(n, d). HostTun_name d = name) (tr_devices tr)
      | Some d \<Rightarrow> HostTun_name d = name \<and> list_ex (\<lambda>(n, e). e = d) (tr_devices tr))"

definition closeDevice_post :: "tun_registry \<Rightarrow> string \<Rightarrow> bool \<Rightarrow> bool" where
  "closeDevice_post tr name result \<longleftrightarrow> result = list_ex (\<lambda>(n, d). HostTun_name d = name) (tr_devices tr)"

text \<open>
  What the system is documented to do: the \<^verbatim>\<open>ioctl\<close> takes at most 15 characters of the name field as a
  template, \<^verbatim>\<open>tun%d\<close> if there are none, and answers with a terminated name that matches it; interface indices
  are positive \<^verbatim>\<open>int\<close>s.
\<close>

definition kernel_template :: "string \<Rightarrow> string" where
  "kernel_template t = (if t = [] then ''tun%d'' else t)"

definition tun_naming_laws :: "(int \<Rightarrow> string \<Rightarrow> int \<times> int \<times> string) \<Rightarrow> (string \<Rightarrow> 32 word) \<Rightarrow> bool" where
  "tun_naming_laws tunsetiff nametoindex \<longleftrightarrow>
     (\<forall>fd field err errno nm. tunsetiff fd field = (err, errno, nm) \<longrightarrow> 0 \<le> err \<longrightarrow>
        NUL \<in> set nm \<and> matches_template (kernel_template (c_string (take (IFNAMSIZ - 1) field))) (c_string nm)) \<and>
     (\<forall>n. unat (nametoindex n) < 2 ^ 31)"

lemma c_string_strncpy: "c_string (take (IFNAMSIZ - 1) (strncpy IFNAMSIZ nt)) = take (IFNAMSIZ - 1) (c_string nt)"
proof -
  let ?t = "take IFNAMSIZ (c_string nt)"
  have "NUL \<notin> set (c_string nt)"
    by (auto simp: c_string_def dest: set_takeWhileD)
  then have no: "NUL \<notin> set (take k (c_string nt))" for k
    using set_take_subset by fast
  have app: "c_string (xs @ replicate k NUL) = xs" if "NUL \<notin> set xs" for xs k
  proof -
    have "c_string (replicate k NUL) = []" by (cases k) (simp_all add: c_string_def)
    with that show ?thesis by (induction xs) (auto simp: c_string_def)
  qed
  have "take (IFNAMSIZ - 1) (strncpy IFNAMSIZ nt) =
      take (IFNAMSIZ - 1) (c_string nt) @ replicate (IFNAMSIZ - 1 - length ?t) NUL"
    by (simp add: strncpy_def Let_def IFNAMSIZ_def min_def take_replicate)
  with app [OF no] show ?thesis by simp
qed

lemma take_c_string_eq_iff:
  "take (IFNAMSIZ - 1) (c_string nt) = nt \<longleftrightarrow> length nt < IFNAMSIZ \<and> NUL \<notin> set nt"
proof
  assume eq: "take (IFNAMSIZ - 1) (c_string nt) = nt"
  have "set (take (IFNAMSIZ - 1) (c_string nt)) \<subseteq> set (c_string nt)" by (rule set_take_subset)
  with eq have "NUL \<notin> set nt" by (auto simp: c_string_def dest: set_takeWhileD)
  moreover have "length nt \<le> IFNAMSIZ - 1"
    using arg_cong [OF eq, of length] by simp
  ultimately show "length nt < IFNAMSIZ \<and> NUL \<notin> set nt" by (simp add: IFNAMSIZ_def)
next
  assume "length nt < IFNAMSIZ \<and> NUL \<notin> set nt"
  moreover from this have "c_string nt = nt"
    unfolding c_string_def by (intro takeWhile_eq_all_conv [THEN iffD2]) auto
  ultimately show "take (IFNAMSIZ - 1) (c_string nt) = nt" by (simp add: IFNAMSIZ_def)
qed

lemma matches_plain: "CHR ''%'' \<notin> set t \<Longrightarrow> matches_template t n \<longleftrightarrow> n = t"
  by (induction t arbitrary: n) (auto split: list.split)

lemma sint_nonneg_small: "unat (w :: 32 word) < 2 ^ 31 \<Longrightarrow> 0 \<le> sint w"
proof -
  assume small: "unat w < 2 ^ 31"
  have "uint w = int (unat w)" by simp
  also have "\<dots> < int (2 ^ 31)" using small by (rule of_nat_less_iff [THEN iffD2])
  finally have "uint w < 2 ^ 31" by simp
  then have "signed_take_bit 31 (uint w) = uint w"
    by (intro signed_take_bit_int_eq_self) (auto intro: order_trans [of _ 0])
  then show ?thesis by (simp add: sint_uint)
qed

lemma create_named:
  assumes "createDevice open_call tunsetiff nametoindex (tr, os) nt = (r, st)"
    and "tun_naming_laws tunsetiff nametoindex"
  shows "case r of
      Ret d \<Rightarrow> 0 \<le> ht_fd d \<and> 0 \<le> ht_ifIndex d \<and> matches_template (kernel_template (take (IFNAMSIZ - 1) (c_string nt))) (ht_name d)
    | Throw e \<Rightarrow> (\<exists>errno. e = SystemError errno) | UB u \<Rightarrow> False"
proof -
  obtain fd errno where o: "open_call (c_string (tr_tunCtl tr)) = (fd, errno)" by fastforce
  obtain err en nm where t: "tunsetiff fd (strncpy IFNAMSIZ nt) = (err, en, nm)" using prod_cases3 by blast
  have nm: "NUL \<in> set nm \<and> matches_template (kernel_template (take (IFNAMSIZ - 1) (c_string nt))) (c_string nm)" if "0 \<le> err"
    using assms(2) t that c_string_strncpy [of nt] unfolding tun_naming_laws_def by metis
  have "0 \<le> sint (nametoindex n)" for n
    using assms(2) by (intro sint_nonneg_small) (simp add: tun_naming_laws_def)
  with assms(1) o t nm show ?thesis
    by (auto simp: createDevice_def Let_def HostTun_new_def split: if_splits option.splits)
qed

lemma registry_member:
  assumes "registry_inv base (tr, os)"
  shows "list_ex (\<lambda>(n, d). HostTun_name d = name) (tr_devices tr) \<longleftrightarrow> devices tr name \<noteq> None"
    and "list_ex (\<lambda>(n, e). e = d) (tr_devices tr) \<longleftrightarrow> devices tr (ht_name d) = Some d"
proof -
  have key: "(n, d) \<in> set (tr_devices tr) \<longleftrightarrow> devices tr n = Some d" for n d
    using sorted_keys_distinct [OF registry_invD(1) [OF assms]] by (simp add: devices_def)
  have name: "devices tr n = Some d \<Longrightarrow> ht_name d = n" for n d
    using registry_invD(3) [OF assms] by blast
  show "list_ex (\<lambda>(n, d). HostTun_name d = name) (tr_devices tr) \<longleftrightarrow> devices tr name \<noteq> None"
    by (auto simp: list_ex_iff Bex_def key accessor_defs dest: name)
  show "list_ex (\<lambda>(n, e). e = d) (tr_devices tr) \<longleftrightarrow> devices tr (ht_name d) = Some d"
    by (auto simp: list_ex_iff Bex_def key dest: name)
qed

text \<open>The name the system gives to a device without one starts with a letter.\<close>

lemma matches_default: "matches_template ''tun%d'' n \<Longrightarrow> hd n = CHR ''t'' \<and> n \<noteq> []"
  by (cases n) simp_all

text \<open>When a device can have the name of its template, for a template without \<^verbatim>\<open>%d\<close>.\<close>

lemma template_broken:
  assumes "matches_template (kernel_template (take (IFNAMSIZ - 1) (c_string nt))) n" and "CHR ''%'' \<notin> set nt"
    and "nt = [] \<or> \<not> length nt < IFNAMSIZ"
  shows "\<not> matches_template nt n"
proof
  assume "matches_template nt n"
  then have n: "n = nt" using matches_plain [OF assms(2)] by blast
  let ?t = "take (IFNAMSIZ - 1) (c_string nt)"
  show False
  proof (cases "?t = []")
    case True
    with assms(1) n have "hd nt = CHR ''t''" "nt \<noteq> []" using matches_default by (auto simp: kernel_template_def)
    with True show False by (cases nt) (auto simp: c_string_def IFNAMSIZ_def NUL_def)
  next
    case False
    have "CHR ''%'' \<notin> set ?t"
      using assms(2) set_take_subset [of "IFNAMSIZ - 1" "c_string nt"] by (auto simp: c_string_def dest: set_takeWhileD)
    with assms(1) False n have "?t = nt" by (simp add: kernel_template_def matches_plain)
    with False assms(3) take_c_string_eq_iff [of nt] show False by auto
  qed
qed

text \<open>
  C23. The registry keeps its documented contract: \<^verbatim>\<open>findDevice\<close> and \<^verbatim>\<open>closeDevice\<close> in every state, and
  \<^verbatim>\<open>createDevice\<close>, which throws nothing but \<^verbatim>\<open>std::system_error\<close>, for every template that is not empty and fits
  the name field (15 characters, none of them NUL). The empty template is not taken as given, the system
  chooses a name instead, and a longer template without \<^verbatim>\<open>%d\<close> is silently cut, so that in both cases the device's
  name is not the one that was asked for.
\<close>

theorem registry_contracts:
  assumes "registry_reach base (tr, os)" and "tun_naming_laws tunsetiff nametoindex"
  shows "findDevice_post tr name (findDevice tr name)
    \<and> closeDevice_post tr name (fst (closeDevice (tr, os) name))
    \<and> (case createDevice open_call tunsetiff nametoindex (tr, os) nt of
         (Ret d, st) \<Rightarrow> (nt \<noteq> [] \<and> length nt < IFNAMSIZ \<and> NUL \<notin> set nt \<longrightarrow> createDevice_post nt d)
            \<and> (CHR ''%'' \<notin> set nt \<and> (nt = [] \<or> \<not> length nt < IFNAMSIZ) \<longrightarrow> \<not> createDevice_post nt d)
       | (Throw e, st) \<Rightarrow> (\<exists>errno. e = SystemError errno)
       | (UB u, st) \<Rightarrow> False)"
proof -
  note inv = registry_reach_inv [OF assms(1)]
  have "findDevice_post tr name (findDevice tr name)"
    using registry_member [OF inv] registry_invD(3) [OF inv, of name] findDevice_devices [OF inv]
    by (auto simp: findDevice_post_def accessor_defs split: option.split)
  moreover obtain b st where c: "closeDevice (tr, os) name = (b, st)" using prod.exhaust by blast
  then have "closeDevice_post tr name b"
    using closeDevice_inv [OF inv, of name b "fst st" "snd st"] registry_member(1) [OF inv] by (simp add: closeDevice_post_def)
  moreover obtain r st' where r: "createDevice open_call tunsetiff nametoindex (tr, os) nt = (r, st')" using prod.exhaust by blast
  have "case r of
      Ret d \<Rightarrow> (nt \<noteq> [] \<and> length nt < IFNAMSIZ \<and> NUL \<notin> set nt \<longrightarrow> createDevice_post nt d)
        \<and> (CHR ''%'' \<notin> set nt \<and> (nt = [] \<or> \<not> length nt < IFNAMSIZ) \<longrightarrow> \<not> createDevice_post nt d)
    | Throw e \<Rightarrow> (\<exists>errno. e = SystemError errno) | UB u \<Rightarrow> False"
  proof (cases r)
    case (Ret d)
    have "kernel_template (take (IFNAMSIZ - 1) (c_string nt)) = nt" if "nt \<noteq> []" "length nt < IFNAMSIZ" "NUL \<notin> set nt"
      unfolding take_c_string_eq_iff [THEN iffD2, OF conjI, OF that(2,3)] using that(1) by (simp add: kernel_template_def)
    with Ret create_named [OF r assms(2)] template_broken [of nt "ht_name d"] show ?thesis
      by (auto simp: createDevice_post_def accessor_defs)
  qed (use create_named [OF r assms(2)] in simp_all)
  ultimately show ?thesis
    by (simp add: c r split: outcome.splits)
qed

definition demo_naming :: "int \<Rightarrow> string \<Rightarrow> int \<times> int \<times> string" where
  "demo_naming fd field =
     (let t = c_string (take (IFNAMSIZ - 1) field)
      in if CHR ''%'' \<in> set t then (- 1, 22, field) else (0, 0, (if t = [] then ''tun0'' else t) @ [NUL]))"

lemma demo_naming_laws: "tun_naming_laws demo_naming (\<lambda>_. 9)"
proof -
  have nn: "NUL \<notin> set (c_string s)" for s by (auto simp: c_string_def dest: set_takeWhileD)
  have "c_string (c_string s @ [NUL]) = c_string s" for s
  proof -
    have "\<forall>c\<in>set (c_string s). c \<noteq> NUL" using nn by blast
    then show ?thesis unfolding c_string_def [of "c_string s @ [NUL]"] by (subst takeWhile_append2) auto
  qed
  moreover have "c_string (''tun0'' @ [NUL]) = ''tun0''" by (simp add: c_string_def NUL_def)
  moreover have "matches_template ''tun%d'' ''tun0''" by (simp add: is_digit_def)
  ultimately show ?thesis
    by (auto simp: tun_naming_laws_def demo_naming_def Let_def matches_plain kernel_template_def
        simp del: matches_template.simps append.simps split: if_splits)
qed

theorem registry_contracts_witness:
  "createDevice_post ''tun0'' (HostTun_new 4 9 ''tun0'')
   \<and> \<not> createDevice_post [] (HostTun_new 4 9 ''tun0'')
   \<and> \<not> createDevice_post ''a-name-beyond-the-field'' (HostTun_new 4 9 ''a-name-beyond-t'')"
proof -
  have c: "createDevice (\<lambda>_. (4, 0)) demo_naming (\<lambda>_. 9) (TunRegistry_new ''/dev/net/tun'', {0}) nt
      = (Ret (HostTun_new 4 9 n), \<lparr>tr_devices = [(n, HostTun_new 4 9 n)], tr_tunCtl = ''/dev/net/tun''\<rparr>, {0, 4})"
    if "(nt, n) \<in> {(''tun0'', ''tun0''), ([], ''tun0''), (''a-name-beyond-the-field'', ''a-name-beyond-t'')}" for nt n
    using that
    by (auto simp: createDevice_def TunRegistry_new_def demo_naming_def c_string_def NUL_def Let_def strncpy_def IFNAMSIZ_def)
  have "registry_reach {0} (TunRegistry_new ''/dev/net/tun'', {0})"
    by (rule registry_start)
  note meets = registry_contracts [OF this demo_naming_laws, where open_call = "\<lambda>_. (4, 0)"]
  show ?thesis
    using meets [of name "''tun0''"] c [of "''tun0''" "''tun0''"] meets [of name "[]"] c [of "[]" "''tun0''"]
      meets [of name "''a-name-beyond-the-field''"] c [of "''a-name-beyond-the-field''" "''a-name-beyond-t''"]
    by (simp add: IFNAMSIZ_def NUL_def)
qed

section \<open>Administration\<close>

definition setLinkState_post :: "('k \<Rightarrow> int \<Rightarrow> iface) \<Rightarrow> 'k \<Rightarrow> host_tun \<Rightarrow> bool \<Rightarrow> unit outcome \<Rightarrow> bool" where
  "setLinkState_post view_if k' tun up r \<longleftrightarrow>
     (case r of Ret _ \<Rightarrow> if_up (view_if k' (HostTun_ifIndex tun)) = up
      | Throw e \<Rightarrow> (\<exists>w. e = RuntimeError w) | UB u \<Rightarrow> False)"

definition setLinkMtu_post :: "('k \<Rightarrow> int \<Rightarrow> iface) \<Rightarrow> 'k \<Rightarrow> host_tun \<Rightarrow> size_t \<Rightarrow> unit outcome \<Rightarrow> bool" where
  "setLinkMtu_post view_if k' tun mtu r \<longleftrightarrow>
     (case r of Ret _ \<Rightarrow> if_mtu (view_if k' (HostTun_ifIndex tun)) = unat mtu
      | Throw e \<Rightarrow> (\<exists>w. e = RuntimeError w) | UB u \<Rightarrow> False)"

definition TunAdminContext_new_post :: "admin_context outcome \<Rightarrow> bool" where
  "TunAdminContext_new_post r \<longleftrightarrow>
     (case r of Ret c \<Rightarrow> ac_nl c \<noteq> None | Throw e \<Rightarrow> (\<exists>w. e = RuntimeError w) | UB u \<Rightarrow> False)"

lemma mtu_mod: "unat (mtu :: size_t) mod 2 ^ 32 = unat mtu \<longleftrightarrow> unat mtu < 2 ^ 32"
  by (metis mod_less mod_less_divisor zero_less_numeral zero_less_power)

text \<open>
  C24. The administrative operations and their documentation: a constructed context has a socket, and on a
  context with a socket the link state is as requested whenever the call returns, nothing but \<^verbatim>\<open>std::runtime_error\<close>
  is thrown, the MTU is the requested one exactly if it is below $2^{32}$ or the call threw, and no other interface
  changes. On a context that was moved from, which the documentation does not exclude, both are undefined.
\<close>

theorem admin_contracts:
  assumes "changes_interface R view_if"
    and "setLinkState R c k tun up = (r, k', o1, r1)" and "setLinkMtu R c k tun mtu = (s, k'', o2, r2)"
  shows "TunAdminContext_new_post (fst (TunAdminContext_new alloc connect geterror))
    \<and> (setLinkState_post view_if k' tun up r \<longleftrightarrow> ac_nl c \<noteq> None)
    \<and> (setLinkMtu_post view_if k'' tun mtu s \<longleftrightarrow> ac_nl c \<noteq> None \<and> (s = Ret () \<longrightarrow> unat mtu < 2 ^ 32))
    \<and> (ac_nl c = None \<longrightarrow> r = UB NullDeref \<and> s = UB NullDeref)
    \<and> (\<forall>i. i \<noteq> HostTun_ifIndex tun \<longrightarrow> view_if k' i = view_if k i \<and> view_if k'' i = view_if k i)"
proof -
  note effect = admin_operations [OF assms]
  have "setLinkMtu_post view_if k'' tun mtu s \<longleftrightarrow> ac_nl c \<noteq> None \<and> (s = Ret () \<longrightarrow> unat mtu < 2 ^ 32)"
    using effect mtu_mod [of mtu] by (auto simp: setLinkMtu_post_def accessor_defs split: if_splits)
  moreover have "setLinkState_post view_if k' tun up r \<longleftrightarrow> ac_nl c \<noteq> None"
    using effect by (auto simp: setLinkState_post_def accessor_defs split: if_splits)
  moreover have "TunAdminContext_new_post (fst (TunAdminContext_new alloc connect geterror))"
    by (auto simp: TunAdminContext_new_post_def TunAdminContext_new_def Let_def split: option.split)
  moreover have "i \<noteq> HostTun_ifIndex tun \<Longrightarrow> view_if k' i = view_if k i \<and> view_if k'' i = view_if k i" for i
    using effect by (simp add: accessor_defs)
  moreover have "ac_nl c = None \<longrightarrow> r = UB NullDeref \<and> s = UB NullDeref" using effect by simp
  ultimately show ?thesis by blast
qed

theorem admin_contracts_witness:
  "\<exists>k' k''. setLinkState demo_rtnl \<lparr>ac_nl = Some 1\<rparr> (\<lambda>_. \<lparr>if_up = False, if_mtu = 1500\<rparr>) (HostTun_new 4 9 ''tun0'') True
       = (Ret (), k', [9, 99], [99, 9])
     \<and> setLinkState_post (\<lambda>k. k) k' (HostTun_new 4 9 ''tun0'') True (Ret ())
     \<and> setLinkMtu demo_rtnl \<lparr>ac_nl = Some 1\<rparr> (\<lambda>_. \<lparr>if_up = False, if_mtu = 1500\<rparr>) (HostTun_new 4 9 ''tun0'') 256
       = (Ret (), k'', [9, 99], [99, 9])
     \<and> setLinkMtu_post (\<lambda>k. k) k'' (HostTun_new 4 9 ''tun0'') 256 (Ret ()) \<and> k'' 8 = \<lparr>if_up = False, if_mtu = 1500\<rparr>"
proof -
  let ?k = "\<lambda>_. \<lparr>if_up = False, if_mtu = 1500\<rparr>" and ?d = "HostTun_new 4 9 ''tun0''" and ?c = "\<lparr>ac_nl = Some 1\<rparr>"
  have r: "setLinkState demo_rtnl ?c ?k ?d True = (Ret (), ?k(9 := \<lparr>if_up = True, if_mtu = 1500\<rparr>), [9, 99], [99, 9])"
    by (simp add: setLinkState_def change_link_def got_link_def demo_rtnl_def rtnl_link_defs HostTun_new_def)
  have m: "setLinkMtu demo_rtnl ?c ?k ?d 256 = (Ret (), ?k(9 := \<lparr>if_up = False, if_mtu = 256\<rparr>), [9, 99], [99, 9])"
    by (simp add: setLinkMtu_def change_link_def got_link_def demo_rtnl_def rtnl_link_defs HostTun_new_def)
  have "HostTun_ifIndex ?d = 9" by (simp add: HostTun_ifIndex_def HostTun_new_def)
  with admin_contracts [OF demo_rtnl_law r m] r m show ?thesis by auto
qed

end
