(* ===== verification/Fingerprint.thy ===== *)
theory Fingerprint
  imports Exceptions Std_Map
begin

text \<open>
  \<^verbatim>\<open>KeyFingerprint\<close> (\<^verbatim>\<open>include/crypto.hpp\<close>, \<^verbatim>\<open>common/KeyFingerprint.cpp\<close>): a value of 1 to 128 bytes,
  ordered as a \<^verbatim>\<open>std::vector<char>\<close>, which makes it usable as a key of \<^verbatim>\<open>std::set\<close>.
\<close>

datatype key_fingerprint = KeyFingerprint (fp_data: "byte list")

text \<open>\<open>data\<close> is the memory at the pointer argument, or \<open>None\<close> for a null pointer.\<close>

definition KeyFingerprint_new :: "byte list option \<Rightarrow> u32 \<Rightarrow> key_fingerprint outcome" where
  "KeyFingerprint_new data len =
     (case data of
        None \<Rightarrow> Throw (InvalidArgument ''data'')
      | Some mem \<Rightarrow>
          if len < 1 \<or> len > 128 then Throw (InvalidArgument ''length'')
          else if length mem < unat len then UB OutOfBounds
          else Ret (KeyFingerprint (take (unat len) mem)))"

definition fp_get :: "key_fingerprint \<Rightarrow> byte list" where
  "fp_get k = fp_data k"

definition fp_length :: "key_fingerprint \<Rightarrow> u32" where
  "fp_length k = of_nat (length (fp_data k))"

text \<open>\<^verbatim>\<open>char\<close> is signed on the target; vectors compare lexicographically.\<close>

definition schar_less :: "byte \<Rightarrow> byte \<Rightarrow> bool" where
  "schar_less a b \<longleftrightarrow> sint a < sint b"

definition fp_less :: "key_fingerprint \<Rightarrow> key_fingerprint \<Rightarrow> bool" where
  "fp_less a b = lex_less schar_less (fp_data a) (fp_data b)"

definition fp_eq :: "key_fingerprint \<Rightarrow> key_fingerprint \<Rightarrow> bool" where
  "fp_eq a b \<longleftrightarrow> fp_data a = fp_data b"

interpretation schar_key: key_order schar_less
  by unfold_locales (auto simp: schar_less_def linorder_neq_iff [symmetric] signed_word_eqI)

lemmas schar_lex = schar_key.lex_key_order

lemma fp_less_key_order: "key_order fp_less"
proof
  fix x y z :: key_fingerprint
  show "\<not> fp_less x x"
    by (simp add: fp_less_def schar_key.lex_irrefl)
  show "fp_less x y \<Longrightarrow> fp_less y z \<Longrightarrow> fp_less x z"
    unfolding fp_less_def by (rule schar_key.lex_trans)
  show "fp_less x y \<or> x = y \<or> fp_less y x"
    using schar_key.lex_total [of "fp_data x" "fp_data y"]
    by (auto simp: fp_less_def intro: key_fingerprint.expand)
qed

interpretation fp_key: key_order fp_less
  by (rule fp_less_key_order)

lemma fp_eq_iff: "fp_eq a b \<longleftrightarrow> a = b"
  by (cases a; cases b) (simp add: fp_eq_def)

instantiation key_fingerprint :: linorder
begin

definition less_key_fingerprint :: "key_fingerprint \<Rightarrow> key_fingerprint \<Rightarrow> bool" where
  "less_key_fingerprint a b = fp_less a b"

definition less_eq_key_fingerprint :: "key_fingerprint \<Rightarrow> key_fingerprint \<Rightarrow> bool" where
  "less_eq_key_fingerprint a b \<longleftrightarrow> fp_less a b \<or> a = b"

instance
proof
  fix x y z :: key_fingerprint
  show "x < y \<longleftrightarrow> x \<le> y \<and> \<not> y \<le> x"
    unfolding less_key_fingerprint_def less_eq_key_fingerprint_def
    using fp_key.asym fp_key.irrefl by blast
  show "x \<le> x"
    by (simp add: less_eq_key_fingerprint_def)
  show "x \<le> y \<Longrightarrow> y \<le> z \<Longrightarrow> x \<le> z"
    unfolding less_eq_key_fingerprint_def using fp_key.trans by blast
  show "x \<le> y \<Longrightarrow> y \<le> x \<Longrightarrow> x = y"
    unfolding less_eq_key_fingerprint_def using fp_key.asym by blast
  show "x \<le> y \<or> y \<le> x"
    unfolding less_eq_key_fingerprint_def using fp_key.total by blast
qed

end

lemma KeyFingerprint_new_Some:
  "KeyFingerprint_new (Some mem) len =
     (if unat len = 0 \<or> 128 < unat len then Throw (InvalidArgument ''length'')
      else if length mem < unat len then UB OutOfBounds
      else Ret (KeyFingerprint (take (unat len) mem)))"
proof -
  have "len < 1 \<or> len > 128 \<longleftrightarrow> unat len = 0 \<or> 128 < unat len"
    by (simp add: word_less_nat_alt)
  then show ?thesis unfolding KeyFingerprint_new_def by (simp only: option.case)
qed

text \<open>
  C37. A fingerprint can only be built from 1 to 128 bytes that are there, otherwise the constructor
  throws; the order is a strict total order compatible with \<^verbatim>\<open>operator==\<close>, as the set of permissible
  peers requires, and \<^verbatim>\<open>length()\<close> is the number of bytes given.
\<close>

theorem fingerprint_new:
  "strict_weak_order fp_less
   \<and> (\<not> fp_less a b \<and> \<not> fp_less b a \<longleftrightarrow> fp_eq a b)
   \<and> (KeyFingerprint_new (Some mem) len = Ret k \<longleftrightarrow>
        1 \<le> unat len \<and> unat len \<le> 128 \<and> unat len \<le> length mem \<and> k = KeyFingerprint (take (unat len) mem))
   \<and> (unat len = 0 \<or> 128 < unat len \<longleftrightarrow> KeyFingerprint_new (Some mem) len = Throw (InvalidArgument ''length''))
   \<and> KeyFingerprint_new None len = Throw (InvalidArgument ''data'')"
proof -
  have "\<not> fp_less a b \<and> \<not> fp_less b a \<longleftrightarrow> fp_eq a b"
    using fp_key.incomparable fp_key.irrefl by (auto simp: fp_eq_iff)
  moreover have "KeyFingerprint_new (Some mem) len = Ret k \<longleftrightarrow>
        1 \<le> unat len \<and> unat len \<le> 128 \<and> unat len \<le> length mem \<and> k = KeyFingerprint (take (unat len) mem)"
    by (auto simp: KeyFingerprint_new_Some)
  moreover have "unat len = 0 \<or> 128 < unat len \<longleftrightarrow> KeyFingerprint_new (Some mem) len = Throw (InvalidArgument ''length'')"
    by (simp add: KeyFingerprint_new_Some)
  ultimately show ?thesis
    using fp_key.swo by (simp add: KeyFingerprint_new_def)
qed

end
