(* ===== verification/Crypto_Context.thy ===== *)
theory Crypto_Context
  imports Fingerprint
begin

text \<open>
  \<^verbatim>\<open>CryptoContext\<close> (\<^verbatim>\<open>net/crypto.hpp\<close>, \<^verbatim>\<open>net/CryptoContext.cpp\<close>): credentials, the set of permissible
  peers, and the certificate check that GnuTLS calls during a handshake. The functions of GnuTLS are
  arguments: their results enter as arguments, and the calls whose pairing matters are recorded.
\<close>

section \<open>Construction\<close>

record crypto_context =
  cc_permissiblePeers :: "key_fingerprint list"

datatype cred_call = AllocateCredentials | SetVerifyFunction | SetKey | FreeCredentials

text \<open>
  \<open>alloc\<close> is the result of allocating the credentials, \<open>set_key\<close> that of setting the key pair,
  \<open>strerror\<close> the text of an error. The calls made on existing credentials are returned too.
\<close>

definition INT_MAX :: nat where "INT_MAX = 2147483647"

definition CryptoContext_new ::
  "int \<Rightarrow> (string \<Rightarrow> string \<Rightarrow> string \<Rightarrow> int) \<Rightarrow> (int \<Rightarrow> string) \<Rightarrow> string \<Rightarrow> string \<Rightarrow> string
     \<Rightarrow> crypto_context outcome \<times> cred_call list" where
  "CryptoContext_new alloc set_key strerror pubKey privKey subkey =
     (if length pubKey \<ge> INT_MAX then (Throw (InvalidArgument ''pubKey''), [])
      else if length privKey \<ge> INT_MAX then (Throw (InvalidArgument ''privKey''), [])
      else if alloc \<noteq> 0 then (Throw (CryptoException alloc 0 (strerror alloc)), [])
      else
        let err = set_key pubKey privKey subkey
        in if err \<noteq> 0
           then (Throw (CryptoException err 0 (strerror err)),
                 [AllocateCredentials, SetVerifyFunction, SetKey, FreeCredentials])
           else (Ret \<lparr>cc_permissiblePeers = []\<rparr>, [AllocateCredentials, SetVerifyFunction, SetKey]))"

definition CryptoContext_delete :: "crypto_context \<Rightarrow> cred_call list" where
  "CryptoContext_delete c = [FreeCredentials]"

definition get_permissiblePeers :: "crypto_context \<Rightarrow> key_fingerprint list" where
  "get_permissiblePeers c = cc_permissiblePeers c"

definition set_permissiblePeers :: "crypto_context \<Rightarrow> key_fingerprint list \<Rightarrow> crypto_context" where
  "set_permissiblePeers c peers = c\<lparr>cc_permissiblePeers := peers\<rparr>"

section \<open>Certificate verification\<close>

text \<open>What GnuTLS answers during one verification.\<close>

record verify_env =
  ve_type_openpgp :: bool
  ve_peers :: "byte list option"
  ve_crt_init :: int
  ve_crt_import :: "byte list \<Rightarrow> int"
  ve_get_fingerprint :: "byte list \<Rightarrow> int \<times> byte list \<times> size_t"

datatype crt_call = CrtInit | CrtDeinit

text \<open>
  The callback. \<open>ctx\<close> is the context of the session that \<^verbatim>\<open>gnutls_session_get_ptr\<close> returns, \<open>None\<close> for a
  null pointer. The fingerprint is written to a buffer of 128 bytes. An exception of the fingerprint's
  constructor leaves the function before the certificate is released.
\<close>

definition gnutls_certificate_verify ::
  "crypto_context option \<Rightarrow> verify_env \<Rightarrow> int outcome \<times> crt_call list" where
  "gnutls_certificate_verify ctx V =
     (case ctx of
        None \<Rightarrow> (UB NullDeref, [])
      | Some context \<Rightarrow>
          if \<not> ve_type_openpgp V then (Ret 1, [])
          else (case ve_peers V of
            None \<Rightarrow> (Ret 1, [])
          | Some peerCert \<Rightarrow>
              if ve_crt_init V \<noteq> 0 then (Ret 1, [])
              else if ve_crt_import V peerCert \<noteq> 0 then (Ret 1, [CrtInit, CrtDeinit])
              else
                let (err, fpr, fprLen) = ve_get_fingerprint V peerCert
                in if err \<noteq> 0 then (Ret 1, [CrtInit, CrtDeinit])
                   else (case KeyFingerprint_new (Some (memcpy (replicate 128 0) 0 (take 128 fpr))) (ucast fprLen) of
                       Ret k \<Rightarrow>
                         (Ret (if set_count fp_less k (cc_permissiblePeers context) \<noteq> 0 then 0 else 1),
                          [CrtInit, CrtDeinit])
                     | Throw e \<Rightarrow> (Throw e, [CrtInit])
                     | UB u \<Rightarrow> (UB u, [CrtInit]))))"

text \<open>The peer's fingerprint, if the certificate is an OpenPGP one that can be read.\<close>

definition peer_fingerprint :: "verify_env \<Rightarrow> key_fingerprint option" where
  "peer_fingerprint V =
     (if ve_type_openpgp V \<and> ve_crt_init V = 0 then
        (case ve_peers V of
           None \<Rightarrow> None
         | Some c \<Rightarrow>
             (case ve_get_fingerprint V c of
                (err, fpr, fprLen) \<Rightarrow>
                  if ve_crt_import V c = 0 \<and> err = 0 then Some (KeyFingerprint (take (unat fprLen) fpr)) else None))
      else None)"

text \<open>
  GnuTLS's documented behaviour for a fingerprint it reports: it fits the buffer it was given and
  its length is the number of bytes written.
\<close>

definition fingerprint_fits :: "verify_env \<Rightarrow> bool" where
  "fingerprint_fits V \<longleftrightarrow>
     (\<forall>c. case ve_get_fingerprint V c of
        (err, fpr, fprLen) \<Rightarrow> err = 0 \<longrightarrow> length fpr = unat fprLen \<and> 1 \<le> length fpr \<and> length fpr \<le> 128)"

lemma fingerprint_buffer:
  fixes n :: size_t
  shows "length fpr = unat n \<Longrightarrow> 1 \<le> length fpr \<Longrightarrow> length fpr \<le> 128 \<Longrightarrow>
   KeyFingerprint_new (Some (memcpy (replicate 128 0) 0 (take 128 fpr))) (ucast n) = Ret (KeyFingerprint (take (unat n) fpr))"
proof -
  assume len: "length fpr = unat n" "1 \<le> length fpr" "length fpr \<le> 128"
  then have "unat (ucast n :: u32) = unat n" by (simp add: unat_ucast_small)
  with len show ?thesis by (simp add: KeyFingerprint_new_Some memcpy_def)
qed

lemma verify_decides:
  assumes "fingerprint_fits V" and "sorted_wrt fp_less (cc_permissiblePeers context)"
  shows "fst (gnutls_certificate_verify (Some context) V) =
    Ret (case peer_fingerprint V of
           Some k \<Rightarrow> if k \<in> set (cc_permissiblePeers context) then 0 else 1
         | None \<Rightarrow> 1)"
proof (cases "ve_type_openpgp V \<and> ve_crt_init V = 0 \<and> ve_peers V \<noteq> None")
  case True
  then obtain c where c: "ve_peers V = Some c" "ve_type_openpgp V" "ve_crt_init V = 0" by auto
  obtain err fpr n where g: "ve_get_fingerprint V c = (err, fpr, n)" by (cases "ve_get_fingerprint V c") auto
  have "err = 0 \<Longrightarrow> length fpr = unat n \<and> 1 \<le> length fpr \<and> length fpr \<le> 128"
    using assms(1) g unfolding fingerprint_fits_def by (metis (mono_tags, lifting) case_prod_conv)
  with c g fingerprint_buffer [of fpr n] fp_key.count_member [OF assms(2)] show ?thesis
    by (auto simp: gnutls_certificate_verify_def peer_fingerprint_def)
next
  case False
  then show ?thesis
    by (auto simp: gnutls_certificate_verify_def peer_fingerprint_def split: option.splits)
qed

text \<open>
  C4. Only permissible peers are accepted: the callback answers with success exactly for a readable
  OpenPGP certificate whose fingerprint is in the set last assigned, whatever else GnuTLS reports;
  with the empty set of a new context nobody is accepted.
\<close>

theorem verify_accepts_iff:
  assumes "fingerprint_fits V" and "sorted_wrt fp_less peers"
  shows "fst (gnutls_certificate_verify (Some (set_permissiblePeers c peers)) V) = Ret 0
      \<longleftrightarrow> (\<exists>k\<in>set peers. peer_fingerprint V = Some k)"
  using verify_decides [OF assms(1), of "set_permissiblePeers c peers"] assms(2)
  by (auto simp: set_permissiblePeers_def split: option.splits)

theorem verify_accepts_iff_witness:
  "fst (gnutls_certificate_verify (Some (set_permissiblePeers \<lparr>cc_permissiblePeers = []\<rparr> [KeyFingerprint [1, 2], KeyFingerprint [1, 3]]))
      \<lparr>ve_type_openpgp = True, ve_peers = Some [], ve_crt_init = 0, ve_crt_import = (\<lambda>_. 0),
       ve_get_fingerprint = (\<lambda>_. (0, [1, 3], 2))\<rparr>) = Ret 0"
proof -
  let ?V = "\<lparr>ve_type_openpgp = True, ve_peers = Some [], ve_crt_init = 0, ve_crt_import = (\<lambda>_. 0),
       ve_get_fingerprint = (\<lambda>_. (0, [1, 3], 2))\<rparr>"
  have "fingerprint_fits ?V" by (simp add: fingerprint_fits_def)
  moreover have "sorted_wrt fp_less [KeyFingerprint [1, 2], KeyFingerprint [1, 3]]"
    by (simp add: fp_less_def schar_less_def)
  moreover have "peer_fingerprint ?V = Some (KeyFingerprint [1, 3])"
    by (simp add: peer_fingerprint_def)
  ultimately show ?thesis
    using verify_accepts_iff [of ?V "[KeyFingerprint [1, 2], KeyFingerprint [1, 3]]" "\<lparr>cc_permissiblePeers = []\<rparr>"]
    by simp
qed

definition cred_balance :: "cred_call list \<Rightarrow> int" where
  "cred_balance cs = int (count_list cs AllocateCredentials) - int (count_list cs FreeCredentials)"

text \<open>
  Credentials do not leak: a constructor that throws has freed what it allocated, one that
  succeeds holds exactly one set of credentials until the destructor, and keys of $2^{31} - 1$ bytes or
  more are refused before anything is allocated.
\<close>

theorem context_credentials:
  "case CryptoContext_new alloc set_key strerror pubKey privKey subkey of
     (Ret c, calls) \<Rightarrow> cred_balance calls = 1 \<and> cred_balance (calls @ CryptoContext_delete c) = 0
        \<and> get_permissiblePeers c = [] \<and> length pubKey < INT_MAX \<and> length privKey < INT_MAX
        \<and> set_key pubKey privKey subkey = 0
   | (Throw e, calls) \<Rightarrow> cred_balance calls = 0
   | (UB u, calls) \<Rightarrow> False"
  by (auto simp: CryptoContext_new_def cred_balance_def CryptoContext_delete_def get_permissiblePeers_def Let_def)

end
