(* ===== verification/Ownership.thy ===== *)
theory Ownership
  imports Packet
begin

text \<open>
  Ownership of byte blocks: \<^verbatim>\<open>new[]\<close>, \<^verbatim>\<open>delete[]\<close>, the reference counts of \<^verbatim>\<open>shared_ptr\<close>, and the
  sequences of these operations that \<^verbatim>\<open>CryptoSession::handleData\<close> and \<^verbatim>\<open>vec_push\<close> perform when they wrap
  received or sent bytes in packets. The models of these functions execute their sequence on a heap;
  freeing a block twice, or one that was not allocated by \<^verbatim>\<open>new[]\<close>, is undefined behaviour.
\<close>

section \<open>Heap operations\<close>

text \<open>
  \<open>hp_live\<close> are the blocks from \<^verbatim>\<open>new[]\<close> not yet deleted, \<open>hp_foreign\<close> blocks that belong to somebody
  else, \<open>hp_count\<close> the use count of the control block of a \<^verbatim>\<open>shared_ptr\<close> to a block and
  \<open>hp_deleter\<close> its deleter.
\<close>

record heap =
  hp_live :: "nat set"
  hp_foreign :: "nat set"
  hp_count :: "nat \<Rightarrow> nat"
  hp_deleter :: "nat \<Rightarrow> deleter"

datatype mem_op =
    NewArray nat
  | DeleteArray nat
  | Touch nat
  | ShareNew nat deleter
  | ShareCopy nat
  | ShareDrop nat

definition delete_array :: "nat \<Rightarrow> heap \<Rightarrow> heap outcome" where
  "delete_array a h =
     (if a \<in> hp_live h then Ret (h\<lparr>hp_live := hp_live h - {a}\<rparr>)
      else if a \<in> hp_foreign h then UB InvalidFree
      else UB DoubleFree)"

fun run_op :: "mem_op \<Rightarrow> heap \<Rightarrow> heap outcome" where
  "run_op (NewArray a) h = Ret (h\<lparr>hp_live := insert a (hp_live h)\<rparr>)"
| "run_op (DeleteArray a) h = delete_array a h"
| "run_op (Touch a) h = (if a \<in> hp_live h \<union> hp_foreign h then Ret h else UB UseAfterFree)"
| "run_op (ShareNew a d) h = Ret (h\<lparr>hp_count := (hp_count h)(a := 1), hp_deleter := (hp_deleter h)(a := d)\<rparr>)"
| "run_op (ShareCopy a) h =
     (if hp_count h a = 0 then UB UseAfterFree else Ret (h\<lparr>hp_count := (hp_count h)(a := Suc (hp_count h a))\<rparr>))"
| "run_op (ShareDrop a) h =
     (if hp_count h a = 0 then UB UseAfterFree
      else let h' = h\<lparr>hp_count := (hp_count h)(a := hp_count h a - 1)\<rparr>
           in if hp_count h a = 1 \<and> hp_deleter h a = ArrayDelete then delete_array a h' else Ret h')"

fun run_ops :: "mem_op list \<Rightarrow> heap \<Rightarrow> heap outcome" where
  "run_ops [] h = Ret h"
| "run_ops (x # xs) h = and_then (run_op x h) (run_ops xs)"

lemma run_ops_append: "run_ops (xs @ ys) h = and_then (run_ops xs h) (run_ops ys)"
proof (induction xs arbitrary: h)
  case Nil
  then show ?case by simp
next
  case (Cons x xs)
  then show ?case by (cases "run_op x h") simp_all
qed

lemma and_then_nil [simp]: "and_then m (run_ops []) = m"
  by (cases m) simp_all

section \<open>The program's sequences\<close>

text \<open>
  A packet constructed from a raw pointer, passed by reference to a call that keeps \<open>k\<close> copies of it,
  and destroyed at the end of the full expression.
\<close>

definition temporary_packet :: "nat \<Rightarrow> nat \<Rightarrow> mem_op list" where
  "temporary_packet a k = ShareNew a ArrayDelete # replicate k (ShareCopy a) @ [ShareDrop a]"

text \<open>\<open>b\<close> is the block of \<^verbatim>\<open>buffer\<close>, \<open>a\<close> that of \<^verbatim>\<open>packetBuffer\<close>, which keeps its pointer.\<close>

definition handleData_mem :: "nat \<Rightarrow> nat \<Rightarrow> nat \<Rightarrow> mem_op list" where
  "handleData_mem b a k =
     [NewArray b, Touch b, NewArray a, Touch b, Touch a] @ temporary_packet a k @ [DeleteArray a, DeleteArray b]"

text \<open>\<open>bases\<close> are the blocks of the library's vector, \<open>a\<close> the block of the gathered packet.\<close>

definition vec_push_mem :: "nat list \<Rightarrow> nat \<Rightarrow> nat \<Rightarrow> mem_op list" where
  "vec_push_mem bases a k =
     map (\<lambda>b. ShareNew b ArrayDelete) bases @ NewArray a # map Touch bases @ temporary_packet a k @ map ShareDrop bases"

section \<open>Lemmas\<close>

lemma run_copies:
  "hp_count h a \<noteq> 0 \<Longrightarrow>
   run_ops (replicate k (ShareCopy a)) h = Ret (h\<lparr>hp_count := (hp_count h)(a := hp_count h a + k)\<rparr>)"
  by (induction k arbitrary: h) simp_all

lemma run_drop_more:
  "hp_count h a = Suc (Suc k) \<Longrightarrow>
   run_op (ShareDrop a) h = Ret (h\<lparr>hp_count := (hp_count h)(a := Suc k)\<rparr>)"
  by (simp add: Let_def)

lemma run_drop_last:
  "hp_count h a = Suc 0 \<Longrightarrow> hp_deleter h a = ArrayDelete \<Longrightarrow>
   run_op (ShareDrop a) h = delete_array a (h\<lparr>hp_count := (hp_count h)(a := 0)\<rparr>)"
  by (simp add: Let_def fun_upd_def)

lemma run_drops_live:
  assumes "hp_count h a = Suc k" and "hp_deleter h a = ArrayDelete"
  shows "run_ops (replicate (Suc k) (ShareDrop a)) h = delete_array a (h\<lparr>hp_count := (hp_count h)(a := 0)\<rparr>)"
  using assms
proof (induction k arbitrary: h)
  case 0
  then show ?case using run_drop_last [of h a] by (simp add: fun_upd_def del: run_op.simps)
next
  case (Suc k)
  let ?h = "h\<lparr>hp_count := (hp_count h)(a := Suc k)\<rparr>"
  have "run_ops (replicate (Suc k) (ShareDrop a)) ?h = delete_array a (?h\<lparr>hp_count := (hp_count ?h)(a := 0)\<rparr>)"
    by (rule Suc.IH) (simp_all add: Suc.prems)
  moreover have "?h\<lparr>hp_count := (hp_count ?h)(a := 0)\<rparr> = h\<lparr>hp_count := (hp_count h)(a := 0)\<rparr>"
    by simp
  ultimately have "run_ops (replicate (Suc k) (ShareDrop a)) ?h = delete_array a (h\<lparr>hp_count := (hp_count h)(a := 0)\<rparr>)"
    by metis
  then show ?case
    using run_drop_more [OF Suc.prems(1)] by (simp only: replicate_Suc [of "Suc k"] run_ops.simps and_then.simps)
qed

text \<open>Everything a copy's owner drops later is dropped.\<close>

definition settled :: "mem_op list \<Rightarrow> nat \<Rightarrow> nat \<Rightarrow> mem_op list" where
  "settled ops a k = ops @ replicate k (ShareDrop a)"

text \<open>
  The unique pointer deletes the block first, then the last owner of a copy does it again; without
  any copy it is the other way round.
\<close>

lemma run_handleData_settled:
  assumes "a \<noteq> b" and "a \<notin> hp_foreign h"
  shows "run_ops (settled (handleData_mem b a k) a k) h = UB DoubleFree"
proof -
  let ?h = "h\<lparr>hp_live := {a, b} \<union> hp_live h, hp_deleter := (hp_deleter h)(a := ArrayDelete), hp_count := (hp_count h)(a := Suc k)\<rparr>"
  have split: "settled (handleData_mem b a k) a k =
      ([NewArray b, Touch b, NewArray a, Touch b, Touch a, ShareNew a ArrayDelete] @ replicate k (ShareCopy a))
        @ [ShareDrop a, DeleteArray a, DeleteArray b] @ replicate k (ShareDrop a)"
    by (simp add: settled_def handleData_mem_def temporary_packet_def)
  have start: "run_ops ([NewArray b, Touch b, NewArray a, Touch b, Touch a, ShareNew a ArrayDelete] @ replicate k (ShareCopy a)) h
      = Ret ?h"
    using assms(1) by (simp add: run_ops_append run_copies)
  have "run_ops ([ShareDrop a, DeleteArray a, DeleteArray b] @ replicate k (ShareDrop a)) ?h = UB DoubleFree"
  proof (cases k)
    case 0
    then show ?thesis using assms by (simp add: delete_array_def)
  next
    case (Suc n)
    let ?g = "h\<lparr>hp_deleter := (hp_deleter h)(a := ArrayDelete), hp_count := (hp_count h)(a := Suc n),
        hp_live := insert b (hp_live h) - {a} - {b}\<rparr>"
    have "run_ops (replicate k (ShareDrop a)) ?g = UB DoubleFree"
      using run_drops_live [of ?g a n] assms(2) Suc by (simp add: delete_array_def del: replicate_Suc)
    moreover have "run_ops [ShareDrop a, DeleteArray a, DeleteArray b] ?h = Ret ?g"
      using assms(1) Suc by (auto simp: delete_array_def Let_def)
    ultimately show ?thesis by (simp only: run_ops_append and_then.simps)
  qed
  with start show ?thesis
    unfolding split by (subst run_ops_append) (simp only: and_then.simps)
qed

lemma run_shares:
  "run_ops (map (\<lambda>b. ShareNew b ArrayDelete) bs) h =
   Ret (h\<lparr>hp_count := (\<lambda>x. if x \<in> set bs then 1 else hp_count h x),
          hp_deleter := (\<lambda>x. if x \<in> set bs then ArrayDelete else hp_deleter h x)\<rparr>)"
  by (induction bs arbitrary: h) (auto simp: fun_eq_iff intro!: arg_cong [where f = "\<lambda>f. heap.hp_count_update f _"])

lemma run_touches: "set bs \<subseteq> hp_live h \<union> hp_foreign h \<Longrightarrow> run_ops (map Touch bs) h = Ret h"
  by (induction bs) auto

lemma run_vec_push_foreign:
  assumes "set (b # bs) \<subseteq> hp_foreign h" and "b \<notin> hp_live h" and "a \<notin> set (b # bs)"
  shows "run_ops (vec_push_mem (b # bs) a 0) h = UB InvalidFree"
proof -
  let ?s = "h\<lparr>hp_count := (\<lambda>x. if x \<in> set (b # bs) then 1 else hp_count h x),
      hp_deleter := (\<lambda>x. if x \<in> set (b # bs) then ArrayDelete else hp_deleter h x)\<rparr>"
  let ?t = "?s\<lparr>hp_live := insert a (hp_live ?s)\<rparr>"
  have "run_ops (map Touch (b # bs)) ?t = Ret ?t"
    by (rule run_touches) (use assms(1) in auto)
  moreover have "run_ops (temporary_packet a 0 @ map ShareDrop (b # bs)) ?t = UB InvalidFree"
    using assms by (auto simp: temporary_packet_def delete_array_def)
  ultimately have "run_ops (NewArray a # map Touch (b # bs) @ (temporary_packet a 0 @ map ShareDrop (b # bs))) ?s = UB InvalidFree"
    by (simp only: run_ops.simps(2) run_op.simps(1) and_then.simps run_ops_append [of "map Touch (b # bs)"])
  then show ?thesis
    unfolding vec_push_mem_def by (simp only: run_ops_append [of "map (\<lambda>b. ShareNew b ArrayDelete) (b # bs)"]
        run_shares [of "b # bs" h] and_then.simps)
qed

section \<open>Properties\<close>

text \<open>
  A block of received data is deleted twice: \<^verbatim>\<open>CryptoSession::handleData\<close> passes the raw pointer
  of \<^verbatim>\<open>packetBuffer\<close> to the packet and keeps owning it, so whatever the readers do with the packet, the
  program deletes the block a second time. \<^verbatim>\<open>vec_push\<close> deletes the buffers of the TLS library that it
  is only given to read, for every vector that is not empty.
\<close>

theorem received_data_deleted_twice:
  assumes "a \<noteq> b" and "a \<notin> hp_foreign h"
    and "set iov \<subseteq> hp_foreign h" and "hp_live h \<inter> hp_foreign h = {}" and "iov \<noteq> []"
  shows "run_ops (settled (handleData_mem b a k) a k) h = UB DoubleFree
    \<and> run_ops (vec_push_mem iov a 0) h = UB InvalidFree"
  using assms run_handleData_settled [of a b h k] run_vec_push_foreign [of _ _ h a]
  by (cases iov) auto

end
