(* ===== verification/Crypto_Session.thy ===== *)
theory Crypto_Session
  imports Crypto_Context Channels Ownership
begin

text \<open>
  \<^verbatim>\<open>CryptoSession\<close> (\<^verbatim>\<open>net/crypto.hpp\<close>, \<^verbatim>\<open>net/CryptoSession.cpp\<close>): the state machine around a GnuTLS
  session and the transport callbacks through which GnuTLS reads and writes datagrams.

  GnuTLS is an argument of the definitions. A call of one of its functions on a session is a tree of
  the transport callbacks it makes before it returns (\<open>gcall\<close>); running the tree executes the program's
  callbacks \<^verbatim>\<open>pull\<close>, \<^verbatim>\<open>pull_timeout\<close>, \<^verbatim>\<open>push\<close> and \<^verbatim>\<open>vec_push\<close> on the session object, in order. Whether the blocks
  of the packets involved are freed correctly is computed with the operations of the theory Ownership.
  Functions connected to the signals observe; they neither keep packets nor call back into the session.
\<close>

section \<open>State\<close>

datatype cstate = Invalid | Opening | Open | Renegotiating | Closed | Aborted

record ('g, 'n) session = stream_base +
  cs_next :: 'n
  cs_state :: cstate
  cs_session :: 'g
  cs_currentPacket :: "packet option"
  cs_changed :: "cstate list"
  cs_changed_slots :: "slot list"

section \<open>GnuTLS\<close>

datatype 'r gcall =
    Done 'r
  | Pull size_t "int \<times> byte list \<Rightarrow> 'r gcall"
  | PullTimeout u32 "int \<Rightarrow> 'r gcall"
  | Push "byte list" "int \<Rightarrow> 'r gcall"
  | VecPush "byte list list" "int \<Rightarrow> 'r gcall"

text \<open>
  The library's functions on a session handle of type \<open>'g\<close>: the return value, for the receiving
  function also the bytes it put into the buffer, and the new handle state.
\<close>

datatype transport = SetPtr | SetPull | SetPullTimeout | SetPush | SetVecPush

record 'g gnutls =
  g_transport_set :: "transport \<Rightarrow> 'g \<Rightarrow> 'g"
  g_handshake :: "'g \<Rightarrow> (int \<times> 'g) gcall"
  g_record_recv :: "'g \<Rightarrow> size_t \<Rightarrow> ((int \<times> byte list) \<times> 'g) gcall"
  g_record_send :: "'g \<Rightarrow> byte list \<Rightarrow> (int \<times> 'g) gcall"
  g_rehandshake :: "'g \<Rightarrow> (int \<times> 'g) gcall"
  g_bye :: "'g \<Rightarrow> (int \<times> 'g) gcall"
  g_alert_get :: "'g \<Rightarrow> int"
  g_strerror :: "int \<Rightarrow> string"

text \<open>The error codes of the library that the program distinguishes.\<close>

definition E_SUCCESS :: int where "E_SUCCESS = 0"
definition E_AGAIN :: int where "E_AGAIN = - 28"
definition E_REHANDSHAKE :: int where "E_REHANDSHAKE = - 37"
definition E_GOT_APPLICATION_DATA :: int where "E_GOT_APPLICATION_DATA = - 38"

section \<open>Transport callbacks\<close>

text \<open>
  \<^verbatim>\<open>pull\<close>: the length is computed in \<^verbatim>\<open>size_t\<close> and stored in an \<^verbatim>\<open>int\<close>. \<^verbatim>\<open>errno\<close> is read by GnuTLS only.
\<close>

definition CryptoSession_pull ::
  "('g, 'n) session \<Rightarrow> size_t \<Rightarrow> (int \<times> byte list) outcome \<times> ('g, 'n) session" where
  "CryptoSession_pull s sz =
     (case cs_currentPacket s of
        None \<Rightarrow> (Ret (- 1, []), s)
      | Some p \<Rightarrow>
          let len = sint (ucast (if sz < Packet_length p then sz else Packet_length p) :: u32)
          in if len < 0 \<or> length (Packet_data p) < nat len then (UB OutOfBounds, s)
             else (Ret (len, take (nat len) (Packet_data p)), s\<lparr>cs_currentPacket := None\<rparr>))"

definition CryptoSession_pull_timeout :: "('g, 'n) session \<Rightarrow> u32 \<Rightarrow> int" where
  "CryptoSession_pull_timeout s ms =
     (case cs_currentPacket s of
        None \<Rightarrow> 0
      | Some p \<Rightarrow> sint (ucast (Packet_length p) :: u32))"

text \<open>\<^verbatim>\<open>push\<close> and \<^verbatim>\<open>vec_push\<close> return the \<^verbatim>\<open>bool\<close> of the stream's \<^verbatim>\<open>write\<close> as a \<^verbatim>\<open>ssize_t\<close>.\<close>

definition CryptoSession_push ::
  "'n stream_env \<Rightarrow> ('g, 'n) session \<Rightarrow> byte list \<Rightarrow> int outcome \<times> ('g, 'n) session" where
  "CryptoSession_push E s data =
     (let (r, n) = se_write E (cs_next s) (Packet_new (se_addr E) data 0 (of_nat (length data)))
      in (map_outcome_val of_bool r, s\<lparr>cs_next := n\<rparr>))"

text \<open>
  The memory operations of a function, run on a heap with the given foreign blocks.
\<close>

definition mem_result :: "nat set \<Rightarrow> mem_op list \<Rightarrow> unit outcome" where
  "mem_result foreign ops =
     map_outcome_val (\<lambda>_. ())
       (run_ops ops \<lparr>hp_live = {}, hp_foreign = foreign, hp_count = (\<lambda>_. 0), hp_deleter = (\<lambda>_. NullDelete)\<rparr>)"

text \<open>
  The vector of packets is destroyed when \<^verbatim>\<open>vec_push\<close> is left, also by an exception; its packets own the
  library's buffers.
\<close>

definition CryptoSession_vec_push ::
  "'n stream_env \<Rightarrow> ('g, 'n) session \<Rightarrow> byte list list \<Rightarrow> int outcome \<times> ('g, 'n) session" where
  "CryptoSession_vec_push E s iov =
     (let packets = map (\<lambda>v. Packet_new (se_addr E) v 0 (of_nat (length v))) iov;
          (r, n) = Stream_write_range (se_write E) (se_addr E) (se_block E) (cs_next s) packets;
          bases = map Suc [0..<length iov]
      in ((case r of
             UB u \<Rightarrow> UB u
           | _ \<Rightarrow> and_then (mem_result (set bases) (vec_push_mem bases 0 0)) (\<lambda>_. map_outcome_val of_bool r)),
          s\<lparr>cs_next := n\<rparr>))"

text \<open>
  Running a library call; an exception of a callback ends it. The callback that verifies a certificate during
  a handshake reads and writes no session object, so it is not a node of the tree: what it answers is part of
  what the handshake returns. The callback itself is modelled in the theory Crypto_Context, and what it does
  on the sessions of this class in the theory Session_Context.
\<close>

primrec run_gcall ::
  "'r gcall \<Rightarrow> 'n stream_env \<Rightarrow> ('g, 'n) session \<Rightarrow> 'r outcome \<times> ('g, 'n) session" where
  "run_gcall (Done r) = (\<lambda>E s. (Ret r, s))"
| "run_gcall (Pull n k) = (\<lambda>E s. case CryptoSession_pull s n of
       (Ret v, s') \<Rightarrow> run_gcall (k v) E s' | (Throw e, s') \<Rightarrow> (Throw e, s') | (UB u, s') \<Rightarrow> (UB u, s'))"
| "run_gcall (PullTimeout ms k) = (\<lambda>E s. run_gcall (k (CryptoSession_pull_timeout s ms)) E s)"
| "run_gcall (Push d k) = (\<lambda>E s. case CryptoSession_push E s d of
       (Ret v, s') \<Rightarrow> run_gcall (k v) E s' | (Throw e, s') \<Rightarrow> (Throw e, s') | (UB u, s') \<Rightarrow> (UB u, s'))"
| "run_gcall (VecPush ds k) = (\<lambda>E s. case CryptoSession_vec_push E s ds of
       (Ret v, s') \<Rightarrow> run_gcall (k v) E s' | (Throw e, s') \<Rightarrow> (Throw e, s') | (UB u, s') \<Rightarrow> (UB u, s'))"

text \<open>A library call whose result is a value and the new handle.\<close>

definition call_gnutls ::
  "'n stream_env \<Rightarrow> ('v \<times> 'g) gcall \<Rightarrow> ('g, 'n) session \<Rightarrow> 'v outcome \<times> ('g, 'n) session" where
  "call_gnutls E t s =
     (case run_gcall t E s of
        (Ret (v, g), s') \<Rightarrow> (Ret v, s'\<lparr>cs_session := g\<rparr>)
      | (Throw e, s') \<Rightarrow> (Throw e, s')
      | (UB u, s') \<Rightarrow> (UB u, s'))"

section \<open>Operations\<close>

text \<open>
  The constructor installs the callbacks in the library's session and connects \<^verbatim>\<open>readPacket\<close> to the
  stream below; \<open>connectRead\<close> is that stream's operation.
\<close>

definition CryptoSession_new ::
  "'g gnutls \<Rightarrow> ('n \<Rightarrow> 'n) \<Rightarrow> 'g option \<Rightarrow> 'n \<Rightarrow> ('g, 'n) session outcome" where
  "CryptoSession_new G connectRead session nx =
     (case session of
        None \<Rightarrow> Throw (InvalidArgument ''session'')
      | Some g \<Rightarrow>
          let g' = fold (g_transport_set G) [SetPtr, SetPull, SetPullTimeout, SetPush, SetVecPush] g
          in Ret \<lparr>st_slots = [], st_raised = [], cs_next = connectRead nx, cs_state = Invalid, cs_session = g',
                  cs_currentPacket = None, cs_changed = [], cs_changed_slots = []\<rparr>)"

text \<open>The destructor: the handle passed to \<^verbatim>\<open>gnutls_deinit\<close>, and the stream below, disconnected.\<close>

definition CryptoSession_delete :: "('n \<Rightarrow> 'n) \<Rightarrow> ('g, 'n) session \<Rightarrow> 'g \<times> 'n" where
  "CryptoSession_delete disconnect s = (cs_session s, disconnect (cs_next s))"

text \<open>
  The defaulted move constructor (new object, moved-from object): the handle and the state are copied,
  the packet and the connections are moved. The defaulted assignment is deleted, since the class has
  members of reference type.
\<close>

definition CryptoSession_move :: "('g, 'n) session \<Rightarrow> ('g, 'n) session \<times> ('g, 'n) session" where
  "CryptoSession_move other =
     (other, other\<lparr>st_slots := [], cs_changed_slots := [], cs_currentPacket := None\<rparr>)"

text \<open>Both objects pass the same handle to \<^verbatim>\<open>gnutls_deinit\<close>.\<close>

lemma moved_handle_released_twice:
  "CryptoSession_move other = (s, other') \<Longrightarrow>
   fst (CryptoSession_delete disconnect s) = cs_session other \<and> fst (CryptoSession_delete disconnect other') = cs_session other"
  by (auto simp: CryptoSession_move_def CryptoSession_delete_def)

definition get_state :: "('g, 'n) session \<Rightarrow> cstate" where
  "get_state s = cs_state s"

definition CryptoSession_connectStateChanged :: "('g, 'n) session \<Rightarrow> slot \<Rightarrow> ('g, 'n) session" where
  "CryptoSession_connectStateChanged s fn = s\<lparr>cs_changed_slots := cs_changed_slots s @ [fn]\<rparr>"

definition CryptoSession_setState :: "cstate \<Rightarrow> ('g, 'n) session \<Rightarrow> ('g, 'n) session" where
  "CryptoSession_setState st s =
     (let oldState = cs_state s in s\<lparr>cs_state := st, cs_changed := cs_changed s @ [oldState]\<rparr>)"

definition CryptoSession_fail ::
  "'g gnutls \<Rightarrow> int \<Rightarrow> ('g, 'n) session \<Rightarrow> unit outcome \<times> ('g, 'n) session" where
  "CryptoSession_fail G ret s =
     (Throw (CryptoException ret (g_alert_get G (cs_session s)) (g_strerror G ret)), s\<lparr>cs_state := Aborted\<rparr>)"

text \<open>\<^verbatim>\<open>propagate\<close> of the base class: the signal \<^verbatim>\<open>read\<close> is raised.\<close>

definition CryptoSession_propagate :: "('g, 'n) session \<Rightarrow> packet \<Rightarrow> ('g, 'n) session" where
  "CryptoSession_propagate s p = s\<lparr>st_raised := st_raised s @ [p]\<rparr>"

definition bufferSize :: nat where "bufferSize = 65536"

text \<open>
  \<^verbatim>\<open>handleHandshake\<close> and \<^verbatim>\<open>handleData\<close> call each other, as often as the library asks for it; the fuel
  bounds the number of handshake calls, and running out of it is \<open>None\<close>. The receive buffer is not
  initialised: it holds what the fresh block holds (\<open>se_block\<close>) wherever the library did not write.
\<close>

function handleHandshake ::
  "nat \<Rightarrow> 'g gnutls \<Rightarrow> 'n stream_env \<Rightarrow> ('g, 'n) session \<Rightarrow> (unit outcome \<times> ('g, 'n) session) option"
and handleData ::
  "nat \<Rightarrow> 'g gnutls \<Rightarrow> 'n stream_env \<Rightarrow> ('g, 'n) session \<Rightarrow> (unit outcome \<times> ('g, 'n) session) option" where
  "handleHandshake 0 G E s = None"
| "handleHandshake (Suc fuel) G E s =
     (case call_gnutls E (g_handshake G (cs_session s)) s of
        (Ret ret, s1) \<Rightarrow>
          if ret = E_GOT_APPLICATION_DATA then handleData fuel G E s1
          else if ret = E_AGAIN then Some (Ret (), s1)
          else if ret = E_SUCCESS then Some (Ret (), CryptoSession_setState Open s1)
          else Some (CryptoSession_fail G ret s1)
      | (Throw e, s1) \<Rightarrow> Some (Throw e, s1)
      | (UB u, s1) \<Rightarrow> Some (UB u, s1))"
| "handleData fuel G E s =
     (case call_gnutls E (g_record_recv G (cs_session s) (of_nat bufferSize)) s of
        (Ret (ret, data), s1) \<Rightarrow>
          if ret < 0 then
            if ret = E_REHANDSHAKE then handleHandshake fuel G E (CryptoSession_setState Renegotiating s1)
            else Some (CryptoSession_fail G ret s1)
          else if ret = 0 then
            (case (if cs_state s1 \<noteq> Closed then call_gnutls E (g_bye G (cs_session s1)) s1 else (Ret 0, s1)) of
               (Ret _, s2) \<Rightarrow> Some (Ret (), CryptoSession_setState Closed s2)
             | (Throw e, s2) \<Rightarrow> Some (Throw e, s2)
             | (UB u, s2) \<Rightarrow> Some (UB u, s2))
          else if nat ret > bufferSize then Some (UB OutOfBounds, s1)
          else
            let packetBuffer = take (nat ret) (memcpy (se_block E bufferSize) 0 data)
            in Some (mem_result {} (handleData_mem 1 2 0),
                     CryptoSession_propagate s1 (Packet_new 2 packetBuffer 0 (of_nat (nat ret))))
      | (Throw e, s1) \<Rightarrow> Some (Throw e, s1)
      | (UB u, s1) \<Rightarrow> Some (UB u, s1))"
  by pat_completeness auto
termination
  by (relation "measure (\<lambda>x. case x of Inl (n, _) \<Rightarrow> 2 * n | Inr (n, _) \<Rightarrow> Suc (2 * n))") auto

declare handleHandshake.simps(2) [simp del] handleData.simps [simp del]

definition handlePacket ::
  "nat \<Rightarrow> 'g gnutls \<Rightarrow> 'n stream_env \<Rightarrow> ('g, 'n) session \<Rightarrow> (unit outcome \<times> ('g, 'n) session) option" where
  "handlePacket fuel G E s =
     (if cs_state s = Opening \<or> cs_state s = Renegotiating then handleHandshake fuel G E s
      else if cs_state s = Open then handleData fuel G E s
      else Some (Throw (InvalidOperation ''Session not ready''), s))"

definition CryptoSession_open ::
  "nat \<Rightarrow> 'g gnutls \<Rightarrow> 'n stream_env \<Rightarrow> ('g, 'n) session \<Rightarrow> (unit outcome \<times> ('g, 'n) session) option" where
  "CryptoSession_open fuel G E s =
     (if cs_state s \<noteq> Invalid then Some (Throw (InvalidOperation ''Session not ready''), s)
      else handleHandshake fuel G E (CryptoSession_setState Opening s))"

definition CryptoSession_renegotiate ::
  "'g gnutls \<Rightarrow> 'n stream_env \<Rightarrow> ('g, 'n) session \<Rightarrow> unit outcome \<times> ('g, 'n) session" where
  "CryptoSession_renegotiate G E s =
     (if cs_state s \<noteq> Open then (Throw (InvalidOperation ''Session not ready''), s)
      else (case call_gnutls E (g_rehandshake G (cs_session s)) s of
              (Ret _, s1) \<Rightarrow> (Ret (), CryptoSession_setState Renegotiating s1)
            | (Throw e, s1) \<Rightarrow> (Throw e, s1)
            | (UB u, s1) \<Rightarrow> (UB u, s1)))"

definition CryptoSession_close ::
  "'g gnutls \<Rightarrow> 'n stream_env \<Rightarrow> ('g, 'n) session \<Rightarrow> unit outcome \<times> ('g, 'n) session" where
  "CryptoSession_close G E s =
     (if cs_state s = Invalid \<or> cs_state s = Closed \<or> cs_state s = Aborted
      then (Throw (InvalidOperation ''Session not ready''), s)
      else (case call_gnutls E (g_bye G (cs_session s)) s of
              (Ret _, s1) \<Rightarrow> (Ret (), CryptoSession_setState Closed s1)
            | (Throw e, s1) \<Rightarrow> (Throw e, s1)
            | (UB u, s1) \<Rightarrow> (UB u, s1)))"

definition CryptoSession_readPacket ::
  "nat \<Rightarrow> 'g gnutls \<Rightarrow> 'n stream_env \<Rightarrow> ('g, 'n) session \<Rightarrow> packet \<Rightarrow> (unit outcome \<times> ('g, 'n) session) option" where
  "CryptoSession_readPacket fuel G E s p = handlePacket fuel G E (s\<lparr>cs_currentPacket := Some p\<rparr>)"

definition CryptoSession_write ::
  "'g gnutls \<Rightarrow> 'n stream_env \<Rightarrow> ('g, 'n) session \<Rightarrow> packet \<Rightarrow> bool outcome \<times> ('g, 'n) session" where
  "CryptoSession_write G E s p =
     (if cs_state s \<noteq> Open then (Throw (InvalidOperation ''Session not ready''), s)
      else (case call_gnutls E (g_record_send G (cs_session s) (view p)) s of
              (Ret result, s1) \<Rightarrow>
                if result = E_AGAIN then (Ret False, s1)
                else if result < 0 then (Throw (CryptoException result 0 (g_strerror G result)), s1)
                else (Ret True, s1)
            | (Throw e, s1) \<Rightarrow> (Throw e, s1)
            | (UB u, s1) \<Rightarrow> (UB u, s1)))"

text \<open>
  \<^verbatim>\<open>CryptoContext::openSession\<close>. \<open>init\<close>, \<open>credentials_set\<close> and \<open>set_request\<close> are functions of the library;
  the handles that exist when the function is left by an exception are returned with it.
\<close>

datatype gnutls_flag = GNUTLS_SERVER | GNUTLS_CLIENT | GNUTLS_DATAGRAM | GNUTLS_NONBLOCK

definition openSession ::
  "'g gnutls \<Rightarrow> (gnutls_flag list \<Rightarrow> int \<times> 'g) \<Rightarrow> ('g \<Rightarrow> int \<times> 'g) \<Rightarrow> ('g \<Rightarrow> 'g) \<Rightarrow> ('n \<Rightarrow> 'n) \<Rightarrow> 'n \<Rightarrow> bool
     \<Rightarrow> ('g, 'n) session outcome \<times> 'g list" where
  "openSession G ginit credentials_set set_request connectRead nx server =
     (let (err, g) = ginit [if server then GNUTLS_SERVER else GNUTLS_CLIENT, GNUTLS_DATAGRAM, GNUTLS_NONBLOCK]
      in if err < 0 then (Throw (CryptoException err 0 (g_strerror G err)), [])
         else
           let (err, g) = credentials_set g
           in if err < 0 then (Throw (CryptoException err 0 (g_strerror G err)), [g])
              else
                let g = (if server then set_request g else g)
                in (CryptoSession_new G connectRead (Some g) nx, []))"

section \<open>Runs of a session\<close>

text \<open>The public operations and the packet handler, as one step; \<^verbatim>\<open>write\<close>'s result is not kept.\<close>

datatype session_op = OpOpen | OpRenegotiate | OpClose | OpRead packet | OpWrite packet

fun session_step ::
  "nat \<Rightarrow> 'g gnutls \<Rightarrow> 'n stream_env \<Rightarrow> session_op \<Rightarrow> ('g, 'n) session \<Rightarrow> (unit outcome \<times> ('g, 'n) session) option" where
  "session_step fuel G E OpOpen s = CryptoSession_open fuel G E s"
| "session_step fuel G E OpRenegotiate s = Some (CryptoSession_renegotiate G E s)"
| "session_step fuel G E OpClose s = Some (CryptoSession_close G E s)"
| "session_step fuel G E (OpRead p) s = CryptoSession_readPacket fuel G E s p"
| "session_step fuel G E (OpWrite p) s =
     (case CryptoSession_write G E s p of (r, s') \<Rightarrow> Some (map_outcome_val (\<lambda>_. ()) r, s'))"

text \<open>Sessions a program can reach; nothing is said after undefined behaviour.\<close>

inductive session_reach :: "'g gnutls \<Rightarrow> 'n stream_env \<Rightarrow> ('g, 'n) session \<Rightarrow> ('g, 'n) session \<Rightarrow> bool"
  for G E s0 where
  reach_start: "session_reach G E s0 s0"
| reach_step: "session_reach G E s0 s \<Longrightarrow> session_step fuel G E op s = Some (r, s') \<Longrightarrow> (\<And>u. r \<noteq> UB u)
    \<Longrightarrow> session_reach G E s0 s'"

section \<open>Library calls\<close>

text \<open>
  \<^verbatim>\<open>pull\<close> on packets whose length fits an \<^verbatim>\<open>int\<close>: a prefix of the bytes the packet shows, once.
\<close>

lemma pull_packet:
  assumes "cs_currentPacket s = Some p" and "wf_packet p" and "length (view p) < 2 ^ 31"
  shows "CryptoSession_pull s sz =
    (let n = min (unat sz) (length (view p)) in (Ret (int n, take n (view p)), s\<lparr>cs_currentPacket := None\<rparr>))"
proof -
  have len: "length (view p) = unat (pk_length p)" and "unat (pk_length p) \<le> length (Packet_data p)"
    using assms(2) by (simp_all add: length_view wf_packet_data_long)
  moreover have "sz < pk_length p \<Longrightarrow> sint (ucast sz :: u32) = int (unat sz) \<and> unat sz < unat (pk_length p)"
    using assms(3) len sint_ucast_small [of sz] by (simp add: word_less_nat_alt)
  moreover have "sint (ucast (pk_length p) :: u32) = int (unat (pk_length p))"
    using assms(3) len sint_ucast_small [of "pk_length p"] by simp
  ultimately show ?thesis
    using assms(1) by (cases "sz < pk_length p")
      (simp_all add: CryptoSession_pull_def Packet_length_def Let_def view_def min_def word_less_nat_alt)
qed

lemma pull_empty: "cs_currentPacket s = None \<Longrightarrow> CryptoSession_pull s sz = (Ret (- 1, []), s)"
  by (simp add: CryptoSession_pull_def)

text \<open>Any other packet: a prefix of what it shows, or nothing.\<close>

lemma sint_le_uint: "sint w \<le> uint w" for w :: u32
  by (simp add: sint_uint signed_take_bit_eq_take_bit_minus)
    (meson order_trans take_bit_int_less_eq_self_iff uint_ge_0 diff_le_eq le_add_same_cancel1 zero_le_numeral)

lemma pull_prefix:
  assumes "CryptoSession_pull s n = (Ret (v, d), s')"
  shows "d = [] \<and> s' = s \<or> (\<exists>p k. cs_currentPacket s = Some p \<and> d = take k (view p) \<and> s' = s\<lparr>cs_currentPacket := None\<rparr>)"
proof (cases "cs_currentPacket s")
  case (Some p)
  let ?w = "if n < Packet_length p then n else Packet_length p"
  let ?len = "sint (ucast ?w :: u32)"
  have "d = take (nat ?len) (Packet_data p)" "s' = s\<lparr>cs_currentPacket := None\<rparr>" "0 \<le> ?len"
    using assms Some by (auto simp: CryptoSession_pull_def Let_def split: if_splits)
  moreover have "nat ?len \<le> unat (Packet_length p)"
  proof -
    have "?len \<le> uint (ucast ?w :: u32)" by (rule sint_le_uint)
    also have "\<dots> \<le> uint ?w" by (simp add: unsigned_ucast_eq take_bit_int_less_eq_self_iff)
    also have "\<dots> \<le> uint (Packet_length p)" by (rule iffD1 [OF word_le_def]) (simp add: less_imp_le)
    finally have "?len \<le> int (unat (Packet_length p))" by simp
    then show ?thesis by (simp only: nat_le_iff)
  qed
  ultimately show ?thesis using Some by (auto simp: view_def min_def intro!: exI [of _ "nat ?len"])
qed (use assms in \<open>simp add: CryptoSession_pull_def\<close>)

text \<open>The callbacks change nothing but the stream below and the current packet.\<close>

definition same_core :: "('g, 'n) session \<Rightarrow> ('g, 'n) session \<Rightarrow> bool" where
  "same_core s s' \<longleftrightarrow> cs_state s' = cs_state s \<and> cs_session s' = cs_session s \<and> st_raised s' = st_raised s
     \<and> st_slots s' = st_slots s \<and> cs_changed s' = cs_changed s \<and> cs_changed_slots s' = cs_changed_slots s"

lemma same_core_refl: "same_core s s"
  by (simp add: same_core_def)

lemma same_core_trans: "same_core s t \<Longrightarrow> same_core t u \<Longrightarrow> same_core s u"
  by (simp add: same_core_def)

lemma callbacks_core:
  "CryptoSession_pull s n = (r, s') \<Longrightarrow> same_core s s'"
  "CryptoSession_push E s d = (r', s') \<Longrightarrow> same_core s s'"
  "CryptoSession_vec_push E s ds = (r', s') \<Longrightarrow> same_core s s'"
  by (auto simp: CryptoSession_pull_def CryptoSession_push_def CryptoSession_vec_push_def same_core_def Let_def
      split: option.splits if_splits prod.splits)

lemma run_gcall_core: "run_gcall t E s = (r, s') \<Longrightarrow> same_core s s'"
proof (induction t arbitrary: s)
  case (Done x)
  then show ?case by (simp add: same_core_refl)
next
  case (Pull n k)
  then show ?case
    by (auto split: prod.splits outcome.splits dest: callbacks_core(1)) (metis callbacks_core(1) rangeI same_core_trans)
next
  case (PullTimeout ms k)
  then show ?case by auto
next
  case (Push d k)
  then show ?case
    by (auto split: prod.splits outcome.splits dest: callbacks_core(2)) (metis callbacks_core(2) rangeI same_core_trans)
next
  case (VecPush ds k)
  then show ?case
    by (auto split: prod.splits outcome.splits dest: callbacks_core(3)) (metis callbacks_core(3) rangeI same_core_trans)
qed

lemma run_gcall_result: "run_gcall t E s = (Ret r, s') \<Longrightarrow> r \<in> set_gcall t"
  by (induction t arbitrary: s) (auto split: prod.splits outcome.splits, (blast intro: rangeI)+)

lemma call_gnutls_Ret:
  assumes "call_gnutls E t s = (Ret v, s')"
  shows "(v, cs_session s') \<in> set_gcall t \<and> same_core (s\<lparr>cs_session := cs_session s'\<rparr>) s'"
  using assms by (auto simp: call_gnutls_def same_core_def split: prod.splits outcome.splits
      dest: run_gcall_core run_gcall_result)

lemma call_gnutls_Throw: "call_gnutls E t s = (Throw e, s') \<Longrightarrow> same_core s s'"
  by (auto simp: call_gnutls_def split: prod.splits outcome.splits dest: run_gcall_core)

lemma call_gnutls_UB: "call_gnutls E t s = (UB u, s') \<Longrightarrow> same_core s s'"
  by (auto simp: call_gnutls_def split: prod.splits outcome.splits dest: run_gcall_core)

lemma call_gnutls_any:
  assumes "call_gnutls E t s = (x, s')"
  shows "(cs_session s' = cs_session s \<or> (\<exists>v. (v, cs_session s') \<in> set_gcall t))
    \<and> same_core (s\<lparr>cs_session := cs_session s'\<rparr>) s'"
proof (cases x)
  case (Ret v)
  then show ?thesis using call_gnutls_Ret [of E t s v s'] assms by blast
next
  case (Throw e)
  then show ?thesis using call_gnutls_Throw [of E t s e s'] assms by (simp add: same_core_def)
next
  case (UB u)
  then show ?thesis using call_gnutls_UB [of E t s u s'] assms by (simp add: same_core_def)
qed

lemma call_gnutls_elim:
  obtains v s1 where "call_gnutls E t s = (Ret v, s1)" "(v, cs_session s1) \<in> set_gcall t"
    "same_core (s\<lparr>cs_session := cs_session s1\<rparr>) s1"
  | e s1 where "call_gnutls E t s = (Throw e, s1)" "same_core s s1"
  | u s1 where "call_gnutls E t s = (UB u, s1)" "same_core s s1"
proof -
  obtain x s1 where "call_gnutls E t s = (x, s1)" by fastforce
  then show ?thesis
    using that call_gnutls_Ret [of E t s _ s1] call_gnutls_Throw [of E t s _ s1] call_gnutls_UB [of E t s _ s1]
    by (cases x) blast+
qed

lemmas call_gnutls_frames = call_gnutls_Ret call_gnutls_Throw call_gnutls_UB

lemmas session_ops = CryptoSession_setState_def CryptoSession_fail_def CryptoSession_propagate_def

text \<open>Case analysis of the two handlers, with what a library call may have changed.\<close>

lemma handleHandshake_cases:
  assumes "handleHandshake fuel G E s = Some (r, s')"
  obtains (data) f s1 where "fuel = Suc f" "(E_GOT_APPLICATION_DATA, cs_session s1) \<in> set_gcall (g_handshake G (cs_session s))"
      "same_core (s\<lparr>cs_session := cs_session s1\<rparr>) s1" "handleData f G E s1 = Some (r, s')"
  | (again) "(E_AGAIN, cs_session s') \<in> set_gcall (g_handshake G (cs_session s))"
      "same_core (s\<lparr>cs_session := cs_session s'\<rparr>) s'" "r = Ret ()"
  | (opened) s1 where "(E_SUCCESS, cs_session s1) \<in> set_gcall (g_handshake G (cs_session s))"
      "same_core (s\<lparr>cs_session := cs_session s1\<rparr>) s1" "r = Ret ()" "s' = CryptoSession_setState Open s1"
  | (failed) ret s1 where "(ret, cs_session s1) \<in> set_gcall (g_handshake G (cs_session s))"
      "same_core (s\<lparr>cs_session := cs_session s1\<rparr>) s1" "(r, s') = CryptoSession_fail G ret s1"
  | (escaped) "same_core s s'"
proof (cases fuel)
  case 0
  with assms show ?thesis by simp
next
  case (Suc f)
  obtain x s1 where c: "call_gnutls E (g_handshake G (cs_session s)) s = (x, s1)" by fastforce
  show ?thesis
  proof (cases x)
    case (Ret ret)
    with c have "(ret, cs_session s1) \<in> set_gcall (g_handshake G (cs_session s))"
      "same_core (s\<lparr>cs_session := cs_session s1\<rparr>) s1"
      using call_gnutls_Ret [of E "g_handshake G (cs_session s)" s ret s1] by simp_all
    with assms Suc c Ret that(1-4) show ?thesis
      by (simp add: handleHandshake.simps split: if_splits)
  next
    case (Throw e)
    with assms Suc c call_gnutls_Throw [of E "g_handshake G (cs_session s)" s e s1] that(5) show ?thesis by (simp add: handleHandshake.simps)
  next
    case (UB u)
    with assms Suc c call_gnutls_UB [of E "g_handshake G (cs_session s)" s u s1] that(5) show ?thesis by (simp add: handleHandshake.simps)
  qed
qed

lemma handleData_memory: "mem_result {} (handleData_mem 1 2 0) = UB DoubleFree"
  using run_handleData_settled [of 2 1 "\<lparr>hp_live = {}, hp_foreign = {}, hp_count = (\<lambda>_. 0), hp_deleter = (\<lambda>_. NullDelete)\<rparr>" 0]
  by (simp add: mem_result_def settled_def)

text \<open>A \<^verbatim>\<open>vec_push\<close> that is not undefined gets nothing to send.\<close>

lemma vec_push_defined:
  assumes "CryptoSession_vec_push E s ds = (r, s')" and "\<And>u. r \<noteq> UB u"
  shows "ds = []"
proof (rule ccontr)
  assume "ds \<noteq> []"
  let ?bases = "map Suc [0..<length ds]"
  let ?h = "\<lparr>hp_live = {}, hp_foreign = set ?bases, hp_count = (\<lambda>_. 0), hp_deleter = (\<lambda>_. NullDelete)\<rparr>"
  obtain b bs where b: "?bases = b # bs" using \<open>ds \<noteq> []\<close> by (cases ?bases) auto
  have "0 \<notin> set ?bases" by simp
  then have "run_ops (vec_push_mem (b # bs) 0 0) ?h = UB InvalidFree"
    unfolding b by (intro run_vec_push_foreign) simp_all
  then have "mem_result (set ?bases) (vec_push_mem ?bases 0 0) = UB InvalidFree"
    by (simp add: mem_result_def b)
  with assms show False
    by (auto simp: CryptoSession_vec_push_def Let_def split: prod.splits outcome.splits)
qed

text \<open>The end of the peer's data: \<^verbatim>\<open>bye\<close> is answered unless the session is closed.\<close>

lemma handleData_eof:
  assumes "handleData fuel G E s = Some (r, s')"
    and "call_gnutls E (g_record_recv G (cs_session s) (of_nat bufferSize)) s = (Ret (0, d), s1)"
    and "same_core (s\<lparr>cs_session := cs_session s1\<rparr>) s1"
  obtains s2 where "cs_session s2 = cs_session s1 \<or> (\<exists>v. (v, cs_session s2) \<in> set_gcall (g_bye G (cs_session s1)))"
    and "same_core (s\<lparr>cs_session := cs_session s2\<rparr>) s2" and "r = Ret () \<and> s' = CryptoSession_setState Closed s2 \<or> s' = s2"
proof -
  obtain y s2 where b: "(if cs_state s1 \<noteq> Closed then call_gnutls E (g_bye G (cs_session s1)) s1 else (Ret 0, s1)) = (y, s2)"
    by fastforce
  then have "(cs_session s2 = cs_session s1 \<or> (\<exists>v. (v, cs_session s2) \<in> set_gcall (g_bye G (cs_session s1))))
      \<and> same_core (s\<lparr>cs_session := cs_session s2\<rparr>) s2"
    using assms(3) call_gnutls_any [of E "g_bye G (cs_session s1)" s1 y s2]
    by (cases "cs_state s1 = Closed") (simp_all add: same_core_def)
  moreover have "r = Ret () \<and> s' = CryptoSession_setState Closed s2 \<or> s' = s2"
    using assms(1,2) b by (cases y) (simp_all add: handleData.simps)
  ultimately show thesis using that by blast
qed

lemma handleData_cases:
  assumes "handleData fuel G E s = Some (r, s')"
  obtains (rehandshake) d s1 where "((E_REHANDSHAKE, d), cs_session s1) \<in> set_gcall (g_record_recv G (cs_session s) (of_nat bufferSize))"
      "same_core (s\<lparr>cs_session := cs_session s1\<rparr>) s1"
      "handleHandshake fuel G E (CryptoSession_setState Renegotiating s1) = Some (r, s')"
  | (failed) ret d s1 where "((ret, d), cs_session s1) \<in> set_gcall (g_record_recv G (cs_session s) (of_nat bufferSize))"
      "same_core (s\<lparr>cs_session := cs_session s1\<rparr>) s1" "(r, s') = CryptoSession_fail G ret s1"
  | (closed) d s1 s2 where "((0, d), cs_session s1) \<in> set_gcall (g_record_recv G (cs_session s) (of_nat bufferSize))"
      "same_core (s\<lparr>cs_session := cs_session s1\<rparr>) s1"
      "cs_session s2 = cs_session s1 \<or> (\<exists>v. (v, cs_session s2) \<in> set_gcall (g_bye G (cs_session s1)))"
      "same_core (s\<lparr>cs_session := cs_session s2\<rparr>) s2"
      "r = Ret () \<and> s' = CryptoSession_setState Closed s2 \<or> s' = s2"
  | (received) ret d s1 p where "((ret, d), cs_session s1) \<in> set_gcall (g_record_recv G (cs_session s) (of_nat bufferSize))"
      "same_core (s\<lparr>cs_session := cs_session s1\<rparr>) s1" "0 < ret"
      "s' = CryptoSession_propagate s1 p" "r = UB DoubleFree"
  | (escaped) v s1 where "(v, cs_session s1) \<in> set_gcall (g_record_recv G (cs_session s) (of_nat bufferSize)) \<or> s1 = s"
      "same_core (s\<lparr>cs_session := cs_session s1\<rparr>) s1" "same_core s1 s'"
proof -
  let ?recv = "g_record_recv G (cs_session s) (of_nat bufferSize)"
  obtain x s1 where c: "call_gnutls E ?recv s = (x, s1)" by fastforce
  show ?thesis
  proof (cases x)
    case (Ret v)
    obtain ret d where v: "v = (ret, d)" by fastforce
    with c Ret have c1: "((ret, d), cs_session s1) \<in> set_gcall ?recv" and c2: "same_core (s\<lparr>cs_session := cs_session s1\<rparr>) s1"
      using call_gnutls_Ret [of E ?recv s v s1] by simp_all
    consider "ret < 0" | "ret = 0" | "0 < ret" "nat ret > bufferSize" | "0 < ret" "nat ret \<le> bufferSize" by linarith
    then show ?thesis
    proof cases
      case 1
      with assms c Ret v c1 c2 that(1,2) show ?thesis
        by (simp add: handleData.simps split: if_splits)
    next
      case 2
      show ?thesis
        by (rule handleData_eof [OF assms c [unfolded Ret v 2] c2]) (rule that(3) [OF c1 [unfolded 2] c2])
    next
      case 3
      with assms c Ret v have "s' = s1" by (simp add: handleData.simps)
      then show ?thesis using that(5) [of "(ret, d)" s1] c1 c2 same_core_refl [of s1] by simp
    next
      case 4
      with assms c Ret v have "r = UB DoubleFree" "\<exists>p. s' = CryptoSession_propagate s1 p"
        by (auto simp: handleData.simps handleData_memory Let_def simp del: One_nat_def)
      then show ?thesis using that(4) c1 c2 4(1) by blast
    qed
  next
    case (Throw e)
    with assms c call_gnutls_Throw [of E ?recv s e s1] have "same_core s s'" by (simp add: handleData.simps)
    then show ?thesis using that(5) [of _ s] by (simp add: same_core_refl)
  next
    case (UB u)
    with assms c call_gnutls_UB [of E ?recv s u s1] have "same_core s s'" by (simp add: handleData.simps)
    then show ?thesis using that(5) [of _ s] by (simp add: same_core_refl)
  qed
qed

end
