(* ===== verification/Session_Invariant.thy ===== *)
theory Session_Invariant
  imports Crypto_Session
begin

text \<open>
  Invariants of \<^verbatim>\<open>CryptoSession\<close>. Whatever holds before an operation and is kept by each call into GnuTLS
  and by a change of state holds after the operation. An operation that ends in undefined behaviour keeps a
  weaker property: the program may have been left in the middle of a callback.
\<close>

definition holds_after :: "('s \<Rightarrow> bool) \<Rightarrow> ('s \<Rightarrow> bool) \<Rightarrow> 'v outcome \<times> 's \<Rightarrow> bool" where
  "holds_after I J x = (case x of (UB u, s) \<Rightarrow> J s | (_, s) \<Rightarrow> I s)"

lemma holds_after_simps [simp]:
  "holds_after I J (Ret v, s) = I s" "holds_after I J (Throw e, s) = I s" "holds_after I J (UB u, s) = J s"
  by (simp_all add: holds_after_def)

lemma holds_after_defined: "holds_after I J (r, s) \<Longrightarrow> (\<And>u. r \<noteq> UB u) \<Longrightarrow> I s"
  by (cases r) auto

text \<open>The packet that \<^verbatim>\<open>handleData\<close> hands to the readers after \<^verbatim>\<open>gnutls_record_recv\<close> stored \<open>data\<close> and returned \<open>ret\<close>.\<close>

definition delivered :: "'n stream_env \<Rightarrow> int \<Rightarrow> byte list \<Rightarrow> packet" where
  "delivered E ret data = Packet_new 2 (take (nat ret) (memcpy (se_block E bufferSize) 0 data)) 0 (of_nat (nat ret))"

definition session_inv ::
  "'g gnutls \<Rightarrow> 'n stream_env \<Rightarrow> (('g, 'n) session \<Rightarrow> bool) \<Rightarrow> (('g, 'n) session \<Rightarrow> bool) \<Rightarrow> bool" where
  "session_inv G E I J \<longleftrightarrow>
     (\<forall>s. I s \<longrightarrow> J s) \<and>
     (\<forall>s st c. I s \<longrightarrow> I (s\<lparr>cs_state := st, cs_changed := c\<rparr>)) \<and>
     (\<forall>s. I s \<longrightarrow> holds_after I J (call_gnutls E (g_handshake G (cs_session s)) s)) \<and>
     (\<forall>s. I s \<longrightarrow> holds_after I J (call_gnutls E (g_rehandshake G (cs_session s)) s)) \<and>
     (\<forall>s. I s \<longrightarrow> holds_after I J (call_gnutls E (g_bye G (cs_session s)) s)) \<and>
     (\<forall>s. I s \<longrightarrow> holds_after I J (call_gnutls E (g_record_recv G (cs_session s) (of_nat bufferSize)) s)) \<and>
     (\<forall>s s' ret d. I s \<longrightarrow> call_gnutls E (g_record_recv G (cs_session s) (of_nat bufferSize)) s = (Ret (ret, d), s') \<longrightarrow>
        0 < ret \<longrightarrow> nat ret \<le> bufferSize \<longrightarrow> J (CryptoSession_propagate s' (delivered E ret d)))"

lemma session_invI:
  assumes "\<And>s. I s \<Longrightarrow> J s"
    and "\<And>s st c. I s \<Longrightarrow> I (s\<lparr>cs_state := st, cs_changed := c\<rparr>)"
    and "\<And>s. I s \<Longrightarrow> holds_after I J (call_gnutls E (g_handshake G (cs_session s)) s)"
    and "\<And>s. I s \<Longrightarrow> holds_after I J (call_gnutls E (g_rehandshake G (cs_session s)) s)"
    and "\<And>s. I s \<Longrightarrow> holds_after I J (call_gnutls E (g_bye G (cs_session s)) s)"
    and "\<And>s. I s \<Longrightarrow> holds_after I J (call_gnutls E (g_record_recv G (cs_session s) (of_nat bufferSize)) s)"
    and "\<And>s s' ret d. I s \<Longrightarrow> call_gnutls E (g_record_recv G (cs_session s) (of_nat bufferSize)) s = (Ret (ret, d), s') \<Longrightarrow>
        0 < ret \<Longrightarrow> nat ret \<le> bufferSize \<Longrightarrow> J (CryptoSession_propagate s' (delivered E ret d))"
  shows "session_inv G E I J"
  using assms unfolding session_inv_def by blast

lemma session_invD:
  assumes "session_inv G E I J" and "I s"
  shows "J s" and "I (s\<lparr>cs_state := st, cs_changed := c\<rparr>)"
    and "holds_after I J (call_gnutls E (g_handshake G (cs_session s)) s)"
    and "holds_after I J (call_gnutls E (g_rehandshake G (cs_session s)) s)"
    and "holds_after I J (call_gnutls E (g_bye G (cs_session s)) s)"
    and "holds_after I J (call_gnutls E (g_record_recv G (cs_session s) (of_nat bufferSize)) s)"
    and "call_gnutls E (g_record_recv G (cs_session s) (of_nat bufferSize)) s = (Ret (ret, d), s') \<Longrightarrow>
        0 < ret \<Longrightarrow> nat ret \<le> bufferSize \<Longrightarrow> J (CryptoSession_propagate s' (delivered E ret d))"
  using assms by (simp_all add: session_inv_def)

lemma setState_inv: "session_inv G E I J \<Longrightarrow> I s \<Longrightarrow> I (CryptoSession_setState st s)"
  using session_invD(2) by (fastforce simp: CryptoSession_setState_def Let_def)

lemma fail_inv: "session_inv G E I J \<Longrightarrow> I s \<Longrightarrow> holds_after I J (CryptoSession_fail G ret s)"
  using session_invD(2) [of G E I J s "cs_changed s" Aborted] by (simp add: CryptoSession_fail_def)

lemma handleData_inv:
  assumes inv: "session_inv G E I J"
    and hh: "\<And>s x. handleHandshake f G E s = Some x \<Longrightarrow> I s \<Longrightarrow> holds_after I J x"
    and "handleData f G E s = Some x" and "I s"
  shows "holds_after I J x"
proof -
  obtain y s1 where c: "call_gnutls E (g_record_recv G (cs_session s) (of_nat bufferSize)) s = (y, s1)" by fastforce
  have after: "holds_after I J (y, s1)" using session_invD(6) [OF inv assms(4)] c by simp
  show ?thesis
  proof (cases y)
    case (Ret v)
    obtain ret d where v: "v = (ret, d)" by fastforce
    have s1: "I s1" using after Ret by simp
    obtain z s2 where b: "(if cs_state s1 \<noteq> Closed then call_gnutls E (g_bye G (cs_session s1)) s1 else (Ret 0, s1)) = (z, s2)"
      by fastforce
    have s2: "holds_after I J (z, s2)" using b s1 session_invD(5) [OF inv s1] by (cases "cs_state s1 = Closed") auto
    consider "ret < 0" | "ret = 0" | "0 < ret" by linarith
    then show ?thesis
    proof cases
      case 1
      with assms(3) c Ret v hh setState_inv [OF inv s1] fail_inv [OF inv s1] show ?thesis
        by (auto simp: handleData.simps split: if_splits)
    next
      case 2
      with assms(3) c Ret v b s2 setState_inv [OF inv, of s2 Closed] show ?thesis
        by (auto simp: handleData.simps split: outcome.splits)
    next
      case 3
      have "nat ret \<le> bufferSize \<Longrightarrow> J (CryptoSession_propagate s1 (delivered E ret d))"
        using session_invD(7) [OF inv assms(4) _ 3] c Ret v by simp
      with 3 assms(3) c Ret v session_invD(1) [OF inv s1] show ?thesis
        by (auto simp: handleData.simps handleData_memory delivered_def Let_def split: if_splits simp del: One_nat_def)
    qed
  qed (use assms(3) c after in \<open>auto simp: handleData.simps\<close>)
qed

lemma handleHandshake_inv:
  assumes inv: "session_inv G E I J"
  shows "handleHandshake f G E s = Some x \<Longrightarrow> I s \<Longrightarrow> holds_after I J x"
proof (induction f arbitrary: s x)
  case (Suc f)
  obtain y s1 where c: "call_gnutls E (g_handshake G (cs_session s)) s = (y, s1)" by fastforce
  have after: "holds_after I J (y, s1)" using session_invD(3) [OF inv Suc.prems(2)] c by simp
  show ?case
  proof (cases y)
    case (Ret ret)
    then have s1: "I s1" using after by simp
    have "handleData f G E s1 = Some x \<Longrightarrow> holds_after I J x"
      by (rule handleData_inv [OF inv Suc.IH _ s1])
    with Suc.prems(1) c Ret s1 setState_inv [OF inv s1] fail_inv [OF inv s1] show ?thesis
      by (auto simp: handleHandshake.simps(2) split: if_splits)
  qed (use Suc.prems(1) c after in \<open>auto simp: handleHandshake.simps(2)\<close>)
qed simp

lemma session_step_inv:
  assumes inv: "session_inv G E I J" and "I s"
    and read: "\<And>p. op = OpRead p \<Longrightarrow> I (s\<lparr>cs_currentPacket := Some p\<rparr>)"
    and send: "\<And>p. op = OpWrite p \<Longrightarrow> cs_state s = Open \<Longrightarrow> holds_after I J (call_gnutls E (g_record_send G (cs_session s) (view p)) s)"
    and step: "session_step fuel G E op s = Some x"
  shows "holds_after I J x"
proof (cases op)
  case OpOpen
  with step assms(2) handleHandshake_inv [OF inv _ setState_inv [OF inv assms(2)]] show ?thesis
    by (auto simp: CryptoSession_open_def split: if_splits)
next
  case OpRenegotiate
  with step assms(2) session_invD(4) [OF inv assms(2)] setState_inv [OF inv] show ?thesis
    by (auto simp: CryptoSession_renegotiate_def split: if_splits prod.splits outcome.splits)
next
  case OpClose
  with step assms(2) session_invD(5) [OF inv assms(2)] setState_inv [OF inv] show ?thesis
    by (auto simp: CryptoSession_close_def split: if_splits prod.splits outcome.splits)
next
  case (OpRead p)
  note I = read [OF this]
  have "handleData fuel G E (s\<lparr>cs_currentPacket := Some p\<rparr>) = Some x \<Longrightarrow> holds_after I J x"
    by (rule handleData_inv [OF inv handleHandshake_inv [OF inv] _ I])
  with OpRead step I handleHandshake_inv [OF inv _ I] show ?thesis
    by (auto simp: CryptoSession_readPacket_def handlePacket_def split: if_splits)
next
  case (OpWrite p)
  with step assms(2) send [OF OpWrite] show ?thesis
    by (auto simp: CryptoSession_write_def split: if_splits prod.splits outcome.splits)
qed

end
