(* ===== verification/Session_Auth.thy ===== *)
theory Session_Auth
  imports Session_Invariant
begin

text \<open>
  Authentication of sessions: what the program relies on of GnuTLS, and that a session hands packets to its
  readers only after a handshake with a verified peer. The guards of the operations.
\<close>

section \<open>Authentication\<close>

text \<open>
  What the program relies on: \<open>P\<close> is a property of a session handle that a successful handshake
  establishes and that no call destroys (a completed handshake with a verified peer), and the library
  reports application data during a handshake only in a renegotiation, that is after a completed one.
\<close>

definition authenticates :: "'g gnutls \<Rightarrow> ('g \<Rightarrow> bool) \<Rightarrow> bool" where
  "authenticates G P \<longleftrightarrow>
     (\<forall>g ret g'. (ret, g') \<in> set_gcall (g_handshake G g) \<longrightarrow>
        (P g \<or> ret = E_SUCCESS \<longrightarrow> P g') \<and> (ret = E_GOT_APPLICATION_DATA \<longrightarrow> P g)) \<and>
     (\<forall>g n v g'. (v, g') \<in> set_gcall (g_record_recv G g n) \<longrightarrow> P g \<longrightarrow> P g') \<and>
     (\<forall>g d v g'. (v, g') \<in> set_gcall (g_record_send G g d) \<longrightarrow> P g \<longrightarrow> P g') \<and>
     (\<forall>g v g'. (v, g') \<in> set_gcall (g_rehandshake G g) \<longrightarrow> P g \<longrightarrow> P g') \<and>
     (\<forall>g v g'. (v, g') \<in> set_gcall (g_bye G g) \<longrightarrow> P g \<longrightarrow> P g')"

lemma authenticatesD:
  assumes "authenticates G P"
  shows "(ret, g') \<in> set_gcall (g_handshake G g) \<Longrightarrow> P g \<or> ret = E_SUCCESS \<Longrightarrow> P g'"
    and "(ret, g') \<in> set_gcall (g_handshake G g) \<Longrightarrow> ret = E_GOT_APPLICATION_DATA \<Longrightarrow> P g"
    and "(v, g') \<in> set_gcall (g_record_recv G g n) \<Longrightarrow> P g \<Longrightarrow> P g'"
    and "(ret, g') \<in> set_gcall (g_record_send G g d) \<Longrightarrow> P g \<Longrightarrow> P g'"
    and "(ret, g') \<in> set_gcall (g_rehandshake G g) \<Longrightarrow> P g \<Longrightarrow> P g'"
    and "(ret, g') \<in> set_gcall (g_bye G g) \<Longrightarrow> P g \<Longrightarrow> P g'"
  using assms unfolding authenticates_def by blast+

definition auth_inv :: "('g \<Rightarrow> bool) \<Rightarrow> ('g, 'n) session \<Rightarrow> bool" where
  "auth_inv P s \<longleftrightarrow> (cs_state s = Open \<or> cs_state s = Renegotiating \<longrightarrow> P (cs_session s))"

text \<open>The last four laws are instances of one: a property of handles that every call of the library keeps.\<close>

definition keeps_handle :: "'g gnutls \<Rightarrow> ('g \<Rightarrow> bool) \<Rightarrow> bool" where
  "keeps_handle G P \<longleftrightarrow>
     (\<forall>g v g'. (v, g') \<in> set_gcall (g_handshake G g) \<longrightarrow> P g \<longrightarrow> P g') \<and>
     (\<forall>g n v g'. (v, g') \<in> set_gcall (g_record_recv G g n) \<longrightarrow> P g \<longrightarrow> P g') \<and>
     (\<forall>g d v g'. (v, g') \<in> set_gcall (g_record_send G g d) \<longrightarrow> P g \<longrightarrow> P g') \<and>
     (\<forall>g v g'. (v, g') \<in> set_gcall (g_rehandshake G g) \<longrightarrow> P g \<longrightarrow> P g') \<and>
     (\<forall>g v g'. (v, g') \<in> set_gcall (g_bye G g) \<longrightarrow> P g \<longrightarrow> P g')"

lemma keeps_handleD:
  assumes "keeps_handle G P"
  shows "(v, g') \<in> set_gcall (g_handshake G g) \<Longrightarrow> P g \<Longrightarrow> P g'"
    and "(w, g') \<in> set_gcall (g_record_recv G g n) \<Longrightarrow> P g \<Longrightarrow> P g'"
    and "(v, g') \<in> set_gcall (g_record_send G g d) \<Longrightarrow> P g \<Longrightarrow> P g'"
    and "(v, g') \<in> set_gcall (g_rehandshake G g) \<Longrightarrow> P g \<Longrightarrow> P g'"
    and "(v, g') \<in> set_gcall (g_bye G g) \<Longrightarrow> P g \<Longrightarrow> P g'"
  using assms unfolding keeps_handle_def by blast+

lemma authenticates_keeps: "authenticates G P \<Longrightarrow> keeps_handle G P"
  unfolding authenticates_def keeps_handle_def by blast

lemma call_keeps:
  assumes "P (cs_session s)" and "\<And>v g'. (v, g') \<in> set_gcall t \<Longrightarrow> P (cs_session s) \<Longrightarrow> P g'"
  shows "holds_after (\<lambda>s. P (cs_session s)) (\<lambda>s. P (cs_session s)) (call_gnutls E t s)"
proof -
  obtain x s' where c: "call_gnutls E t s = (x, s')" by fastforce
  with call_gnutls_any [OF c] assms have "P (cs_session s')" by auto
  with c show ?thesis by (cases x) simp_all
qed

lemma keeps_after:
  assumes "keeps_handle G P"
  shows "session_inv G E (\<lambda>s. P (cs_session s)) (\<lambda>s. P (cs_session s))"
proof (rule session_invI)
  note k = keeps_handleD [OF assms]
  fix s s' ret d
  assume "P (cs_session s)" "call_gnutls E (g_record_recv G (cs_session s) (of_nat bufferSize)) s = (Ret (ret, d), s')"
  then show "P (cs_session (CryptoSession_propagate s' (delivered E ret d)))"
    using call_gnutls_Ret [of E _ s "(ret, d)" s'] k(2) by (fastforce simp: CryptoSession_propagate_def)
qed (auto intro!: call_keeps dest: keeps_handleD [OF assms])

lemma data_keeps:
  assumes "keeps_handle G P" and "handleData f G E s = Some (r, s')" and "P (cs_session s)"
  shows "P (cs_session s')"
  using handleData_inv [OF keeps_after [OF assms(1)] handleHandshake_inv [OF keeps_after [OF assms(1)]] assms(2,3)]
  by (cases r) simp_all

lemma handshake_auth_inv:
  assumes "authenticates G P" and "handleHandshake f G E s = Some (r, s')" and "auth_inv P s"
  shows "auth_inv P s' \<and> (st_raised s' \<noteq> st_raised s \<longrightarrow> P (cs_session s'))"
proof -
  note a = authenticatesD [OF assms(1)]
  note keeps = authenticates_keeps [OF assms(1)]
  from assms(2) show ?thesis
  proof (cases rule: handleHandshake_cases)
    case (data f' s1)
    with a(1,2) have "P (cs_session s1)" by blast
    with data(4) have "P (cs_session s')"
      using data_keeps [OF keeps] by blast
    then show ?thesis by (simp add: auth_inv_def)
  qed (use assms(3) a(1) in \<open>auto simp: auth_inv_def same_core_def session_ops Let_def\<close>)
qed

text \<open>The guards of the operations.\<close>

fun ready :: "session_op \<Rightarrow> cstate \<Rightarrow> bool" where
  "ready OpOpen st \<longleftrightarrow> st = Invalid"
| "ready OpRenegotiate st \<longleftrightarrow> st = Open"
| "ready OpClose st \<longleftrightarrow> st = Opening \<or> st = Open \<or> st = Renegotiating"
| "ready (OpRead p) st \<longleftrightarrow> st = Opening \<or> st = Open \<or> st = Renegotiating"
| "ready (OpWrite p) st \<longleftrightarrow> st = Open"

lemma session_step_not_ready:
  assumes "\<not> ready op (cs_state s)"
  shows "\<exists>s'. session_step fuel G E op s = Some (Throw (InvalidOperation ''Session not ready''), s')
     \<and> same_core s s' \<and> cs_next s' = cs_next s"
  using assms by (cases op; cases "cs_state s")
    (simp_all add: CryptoSession_open_def CryptoSession_renegotiate_def CryptoSession_close_def
      CryptoSession_readPacket_def CryptoSession_write_def handlePacket_def same_core_def)

text \<open>What a step of a ready session does, up to the library call it ends with.\<close>

lemma session_step_ready:
  assumes "session_step fuel G E op s = Some (r, s')" and "ready op (cs_state s)"
  obtains (start) "op = OpOpen" "handleHandshake fuel G E (CryptoSession_setState Opening s) = Some (r, s')"
  | (handshake) p where "op = OpRead p" "cs_state s = Opening \<or> cs_state s = Renegotiating"
      "handleHandshake fuel G E (s\<lparr>cs_currentPacket := Some p\<rparr>) = Some (r, s')"
  | (data) p where "op = OpRead p" "cs_state s = Open" "handleData fuel G E (s\<lparr>cs_currentPacket := Some p\<rparr>) = Some (r, s')"
  | (renegotiate) v s1 where "op = OpRenegotiate" "(v, cs_session s1) \<in> set_gcall (g_rehandshake G (cs_session s))"
      "same_core (s\<lparr>cs_session := cs_session s1\<rparr>) s1" "r = Ret ()" "s' = CryptoSession_setState Renegotiating s1"
  | (closing) v s1 where "op = OpClose" "(v, cs_session s1) \<in> set_gcall (g_bye G (cs_session s))"
      "same_core (s\<lparr>cs_session := cs_session s1\<rparr>) s1" "r = Ret ()" "s' = CryptoSession_setState Closed s1"
  | (sent) v p where "op = OpWrite p" "(v, cs_session s') \<in> set_gcall (g_record_send G (cs_session s) (view p))"
      "same_core (s\<lparr>cs_session := cs_session s'\<rparr>) s'"
  | (escaped) "same_core s s'"
proof (cases op)
  case OpOpen
  with assms that(1) show ?thesis by (simp add: CryptoSession_open_def)
next
  case OpRenegotiate
  show ?thesis
    by (rule call_gnutls_elim [of E "g_rehandshake G (cs_session s)" s])
      (use assms OpRenegotiate that(4,7) in \<open>simp_all add: CryptoSession_renegotiate_def\<close>)
next
  case OpClose
  show ?thesis
    by (rule call_gnutls_elim [of E "g_bye G (cs_session s)" s])
      (use assms OpClose that(5,7) in \<open>auto simp: CryptoSession_close_def\<close>)
next
  case (OpRead p)
  with assms that(2,3) show ?thesis
    by (auto simp: CryptoSession_readPacket_def handlePacket_def)
next
  case (OpWrite p)
  show ?thesis
    by (rule call_gnutls_elim [of E "g_record_send G (cs_session s) (view p)" s])
      (use assms OpWrite that(6,7) in \<open>auto simp: CryptoSession_write_def split: if_splits\<close>)
qed

lemma session_step_auth:
  assumes "authenticates G P" and "session_step fuel G E op s = Some (r, s')" and "auth_inv P s"
  shows "auth_inv P s' \<and> (st_raised s' \<noteq> st_raised s \<longrightarrow> P (cs_session s'))"
proof (cases "ready op (cs_state s)")
  case True
  note a = authenticatesD [OF assms(1)]
  note keeps = authenticates_keeps [OF assms(1)]
  from assms(2) True show ?thesis
  proof (cases rule: session_step_ready)
    case start
    then have "auth_inv P (CryptoSession_setState Opening s)" by (simp add: auth_inv_def session_ops Let_def)
    from handshake_auth_inv [OF assms(1) start(2) this] show ?thesis by (simp add: session_ops Let_def)
  next
    case (handshake p)
    with assms(3) have "auth_inv P (s\<lparr>cs_currentPacket := Some p\<rparr>)" by (simp add: auth_inv_def)
    from handshake_auth_inv [OF assms(1) handshake(3) this] show ?thesis by simp
  next
    case (data p)
    with assms(3) have "P (cs_session (s\<lparr>cs_currentPacket := Some p\<rparr>))" by (simp add: auth_inv_def)
    with data(3) have "P (cs_session s')"
      using data_keeps [OF keeps] by blast
    then show ?thesis by (simp add: auth_inv_def)
  qed (use assms(3) True a(4-6) in \<open>auto simp: auth_inv_def same_core_def session_ops Let_def\<close>)
next
  case False
  from session_step_not_ready [OF this, of fuel G E] assms(2,3) show ?thesis
    by (auto simp: auth_inv_def same_core_def)
qed

lemma session_reach_auth:
  assumes "authenticates G P" and "CryptoSession_new G connectRead h nx = Ret s0" and "session_reach G E s0 s"
  shows "auth_inv P s"
  using assms(3)
proof (induction rule: session_reach.induct)
  case reach_start
  from assms(2) show ?case by (auto simp: CryptoSession_new_def auth_inv_def Let_def split: option.splits)
next
  case (reach_step s fuel op r s')
  then show ?case using session_step_auth [OF assms(1)] by blast
qed

lemma session_step_keeps:
  assumes "keeps_handle G P" and "session_step fuel G E op s = Some (r, s')" and "P (cs_session s)"
  shows "P (cs_session s')"
proof -
  have "holds_after (\<lambda>s. P (cs_session s)) (\<lambda>s. P (cs_session s)) (r, s')"
    by (rule session_step_inv [OF keeps_after [OF assms(1)] assms(3) _ _ assms(2)])
      (auto intro: call_keeps keeps_handleD(3) [OF assms(1)] simp: assms(3))
  then show ?thesis by (cases r) simp_all
qed

lemma session_reach_keeps:
  assumes "keeps_handle G P" and "session_reach G E s0 s" and "P (cs_session s0)"
  shows "P (cs_session s)"
  using assms(2,3)
proof (induction rule: session_reach.induct)
  case (reach_step s fuel op r s')
  then show ?case using session_step_keeps [OF assms(1)] by blast
qed

text \<open>
  C2. Only authenticated data gets through: whatever operations a program calls, a session that is open
  or renegotiating has completed a handshake with a verified peer, and a step that hands a packet to
  the readers leaves the session in such a condition. \<open>P\<close> is what GnuTLS guarantees after a successful
  handshake (with the context's verification callback, a permissible peer).
\<close>

theorem open_sessions_authenticated:
  assumes "authenticates G P" and "CryptoSession_new G connectRead h nx = Ret s0"
    and "session_reach G E s0 s" and "session_step fuel G E op s = Some (r, s')"
  shows "(cs_state s = Open \<or> cs_state s = Renegotiating \<longrightarrow> P (cs_session s))
    \<and> (st_raised s' \<noteq> st_raised s \<longrightarrow> P (cs_session s'))"
  using session_step_auth [OF assms(1,4)] session_reach_auth [OF assms(1-3)] by (simp add: auth_inv_def)

text \<open>
  A library without cryptography, for examples: the handshake succeeds at once, records are datagrams
  in the clear. Its handle remembers whether a handshake took place.
\<close>

definition null_gnutls :: "bool gnutls" where
  "null_gnutls =
     \<lparr>g_transport_set = (\<lambda>_ g. g),
      g_handshake = (\<lambda>g. Done (E_SUCCESS, True)),
      g_record_recv = (\<lambda>g n. Pull n (\<lambda>(k, d). Done ((if k < 0 then E_AGAIN else k, d), g))),
      g_record_send = (\<lambda>g d. Push d (\<lambda>_. Done (int (length d), g))),
      g_rehandshake = (\<lambda>g. Done (E_SUCCESS, g)),
      g_bye = (\<lambda>g. Done (E_SUCCESS, g)),
      g_alert_get = (\<lambda>_. 0), g_strerror = (\<lambda>_. [])\<rparr>"

definition log_env :: "packet list stream_env" where
  "log_env = \<lparr>se_write = (\<lambda>n p. (Ret True, n @ [p])), se_addr = 5, se_block = (\<lambda>n. replicate n 0)\<rparr>"

lemma authenticates_null: "authenticates null_gnutls (\<lambda>g. g)"
  by (auto simp: authenticates_def null_gnutls_def E_SUCCESS_def E_GOT_APPLICATION_DATA_def split: prod.splits if_splits)

text \<open>A session of this library over the stream \<open>nx\<close>, before and after it was opened.\<close>

definition opened_over :: "'n \<Rightarrow> (bool, 'n) session" where
  "opened_over nx = \<lparr>st_slots = [], st_raised = [], cs_next = nx, cs_state = Open, cs_session = True,
     cs_currentPacket = None, cs_changed = [Invalid, Opening], cs_changed_slots = []\<rparr>"

definition fresh_over :: "'n \<Rightarrow> (bool, 'n) session" where
  "fresh_over nx = (opened_over nx)\<lparr>cs_state := Invalid, cs_session := False, cs_changed := []\<rparr>"

definition opened :: "(bool, packet list) session" where
  "opened = \<lparr>st_slots = [], st_raised = [], cs_next = [], cs_state = Open, cs_session = True,
     cs_currentPacket = None, cs_changed = [Invalid, Opening], cs_changed_slots = []\<rparr>"

lemma opened_over_Nil: "opened_over [] = opened"
  by (simp add: opened_def opened_over_def)

lemma new_over: "CryptoSession_new null_gnutls (\<lambda>n. n) (Some False) nx = Ret (fresh_over nx)"
  by (simp add: CryptoSession_new_def null_gnutls_def opened_over_def fresh_over_def)

lemma open_over: "session_step 1 null_gnutls E OpOpen (fresh_over nx) = Some (Ret (), opened_over nx)"
  by (simp add: CryptoSession_open_def handleHandshake.simps opened_over_def fresh_over_def null_gnutls_def call_gnutls_def
      session_ops E_SUCCESS_def E_AGAIN_def E_GOT_APPLICATION_DATA_def)

lemma recv_over:
  "session_step 1 null_gnutls E (OpRead (Packet_new a [7, 8] 0 2)) (opened_over nx)
   = Some (UB DoubleFree, (opened_over nx)\<lparr>st_raised := [Packet_new 2 [7, 8] 0 2]\<rparr>)"
proof -
  let ?p = "Packet_new a [7, 8] 0 2" and ?s = "(opened_over nx)\<lparr>cs_currentPacket := Some (Packet_new a [7, 8] 0 2)\<rparr>"
  have "wf_packet ?p" "view ?p = [7, 8]"
    by (simp_all add: wf_packet_def Packet_new_def view_def Packet_data_def Packet_length_def)
  moreover have "unat (of_nat bufferSize :: size_t) = 65536"
    by (simp add: bufferSize_def)
  ultimately have "CryptoSession_pull ?s (of_nat bufferSize) = (Ret (2, [7, 8]), opened_over nx)"
    using pull_packet [of ?s ?p "of_nat bufferSize"] by (simp add: opened_over_def)
  then have "call_gnutls E (g_record_recv null_gnutls (cs_session ?s) (of_nat bufferSize)) ?s = (Ret (2, [7, 8]), opened_over nx)"
    by (simp add: null_gnutls_def call_gnutls_def opened_over_def)
  moreover have "take 2 (memcpy (se_block E bufferSize) 0 [7, 8]) = [7, 8 :: byte]"
    by (simp add: memcpy_def)
  moreover have "2 \<le> bufferSize" by (simp add: bufferSize_def)
  ultimately show ?thesis
    by (simp add: CryptoSession_readPacket_def handlePacket_def handleData.simps handleData_memory
        CryptoSession_propagate_def del: One_nat_def) (simp add: opened_over_def)
qed

lemma fresh_over_Nil: "fresh_over [] = opened\<lparr>cs_state := Invalid, cs_session := False, cs_changed := []\<rparr>"
  by (simp add: fresh_over_def opened_over_Nil)

lemmas new_null = new_over [of "[] :: packet list", unfolded fresh_over_Nil]
lemmas open_null = open_over [of log_env "[]", unfolded fresh_over_Nil opened_over_Nil]
lemmas recv_null = recv_over [of log_env 1 "[]", unfolded opened_over_Nil]

theorem open_sessions_authenticated_witness:
  "\<exists>s0 s r s'. CryptoSession_new null_gnutls (\<lambda>n. n) (Some False) [] = Ret s0
     \<and> session_step 1 null_gnutls log_env OpOpen s0 = Some (Ret (), s) \<and> cs_state s = Open \<and> cs_session s
     \<and> session_step 1 null_gnutls log_env (OpRead (Packet_new 1 [7, 8] 0 2)) s = Some (r, s')
     \<and> st_raised s' \<noteq> st_raised s \<and> cs_session s'"
proof -
  have "session_reach null_gnutls log_env (opened\<lparr>cs_state := Invalid, cs_session := False, cs_changed := []\<rparr>) opened"
    by (rule reach_step [OF reach_start open_null]) simp
  from open_sessions_authenticated [OF authenticates_null new_null this recv_null]
  have "cs_session opened" "cs_session (opened\<lparr>st_raised := [Packet_new 2 [7, 8] 0 2]\<rparr>)"
    by (simp_all add: opened_def)
  moreover have "cs_state opened = Open" "st_raised opened = []" by (simp_all add: opened_def)
  ultimately show ?thesis
    using new_null open_null recv_null by auto
qed

end
