(* ===== verification/State_Notifier.thy ===== *)
theory State_Notifier
  imports Prelude
begin

text \<open>
  The contract shared by the classes with a state and a signal that announces its changes
  (\<^verbatim>\<open>CryptoSession\<close>, \<^verbatim>\<open>Link\<close>): setting the state announces the previous one. The sequence of announced
  states followed by the current state is the history of the object.
\<close>

locale state_notifier =
  fixes state :: "'o \<Rightarrow> 's" and announced :: "'o \<Rightarrow> 's list" and set_state :: "'s \<Rightarrow> 'o \<Rightarrow> 'o"
  assumes state_set: "state (set_state st x) = st"
    and announced_set: "announced (set_state st x) = announced x @ [state x]"
begin

lemma history_set: "announced (set_state st x) @ [state (set_state st x)] = (announced x @ [state x]) @ [st]"
  by (simp add: state_set announced_set)

lemma history_fold: "announced (fold set_state sts x) @ [state (fold set_state sts x)] = (announced x @ [state x]) @ sts"
  by (induction sts arbitrary: x) (simp_all add: history_set)

lemma path_extend:
  "successively R (announced x @ [state x]) \<Longrightarrow> R (state x) st \<Longrightarrow>
   successively R (announced (set_state st x) @ [state (set_state st x)])"
  by (simp add: history_set successively_append_iff)

end

end
