(* ===== verification/Session_Runs.thy ===== *)
theory Session_Runs
  imports Session_Auth State_Notifier
begin

text \<open>
  Runs of a \<^verbatim>\<open>CryptoSession\<close>: which changes of state its listeners observe, termination of the mutual
  recursion of its handlers, the guards of its operations, and what the transport callbacks give to
  the TLS library.
\<close>

section \<open>The state machine\<close>

interpretation session_state: state_notifier cs_state cs_changed CryptoSession_setState
  by unfold_locales (simp_all add: CryptoSession_setState_def Let_def)

text \<open>The changes of state that are announced.\<close>

fun state_change :: "cstate \<Rightarrow> cstate \<Rightarrow> bool" where
  "state_change Invalid t \<longleftrightarrow> t = Opening"
| "state_change Opening t \<longleftrightarrow> t = Open \<or> t = Renegotiating \<or> t = Closed"
| "state_change Open t \<longleftrightarrow> t = Renegotiating \<or> t = Closed"
| "state_change Renegotiating t \<longleftrightarrow> t = Open \<or> t = Renegotiating \<or> t = Closed"
| "state_change Closed t \<longleftrightarrow> False"
| "state_change Aborted t \<longleftrightarrow> False"

definition active :: "cstate \<Rightarrow> bool" where
  "active st \<longleftrightarrow> st = Opening \<or> st = Open \<or> st = Renegotiating"

text \<open>\<open>path_inv s q\<close>: the announced states, followed by \<open>q\<close>, are a path of the machine from the start.\<close>

definition path_inv :: "('g, 'n) session \<Rightarrow> cstate \<Rightarrow> bool" where
  "path_inv s q \<longleftrightarrow> hd (cs_changed s @ [q]) = Invalid \<and> successively state_change (cs_changed s @ [q])"

definition history_inv :: "('g, 'n) session \<Rightarrow> bool" where
  "history_inv s \<longleftrightarrow> (\<exists>q. path_inv s q \<and> (cs_state s = q \<or> cs_state s = Aborted \<and> active q))"

lemma path_inv_core: "same_core (s\<lparr>cs_session := g\<rparr>) s' \<Longrightarrow> path_inv s' = path_inv s \<and> cs_state s' = cs_state s"
  by (simp add: path_inv_def same_core_def fun_eq_iff)

lemma path_inv_same: "same_core s s' \<Longrightarrow> path_inv s' = path_inv s \<and> cs_state s' = cs_state s"
  by (simp add: path_inv_def same_core_def fun_eq_iff)

lemma path_inv_set:
  "path_inv s (cs_state s) \<Longrightarrow> state_change (cs_state s) st \<Longrightarrow> path_inv (CryptoSession_setState st s) st"
  using session_state.path_extend [of state_change s st]
  by (cases "cs_changed s") (simp_all add: path_inv_def session_state.state_set session_state.announced_set)

lemma path_inv_fail:
  "path_inv s (cs_state s) \<Longrightarrow> active (cs_state s) \<Longrightarrow> (r, s') = CryptoSession_fail G ret s \<Longrightarrow> history_inv s'"
  by (auto simp: CryptoSession_fail_def history_inv_def path_inv_def)

lemma history_inv_set:
  "path_inv s (cs_state s) \<Longrightarrow> state_change (cs_state s) st \<Longrightarrow> history_inv (CryptoSession_setState st s)"
  using path_inv_set [of s st] by (auto simp: history_inv_def session_state.state_set)

lemma history_inv_same: "path_inv s (cs_state s) \<Longrightarrow> history_inv s"
  by (auto simp: history_inv_def)

lemma handleData_history:
  assumes hh: "\<And>s r s'. handleHandshake f G E s = Some (r, s') \<Longrightarrow> cs_state s = Opening \<or> cs_state s = Renegotiating \<Longrightarrow>
      path_inv s (cs_state s) \<Longrightarrow> history_inv s'"
    and "handleData f G E s = Some (r, s')" and "active (cs_state s)" and "path_inv s (cs_state s)"
  shows "history_inv s'"
  using assms(2)
proof (cases rule: handleData_cases)
  case (rehandshake d s1)
  with path_inv_core [OF rehandshake(2)] assms(3,4)
  have "path_inv (CryptoSession_setState Renegotiating s1) Renegotiating"
    by (auto simp: active_def intro!: path_inv_set)
  with hh [OF rehandshake(3)] show ?thesis by (simp add: session_state.state_set)
next
  case (failed ret d s1)
  with path_inv_core [OF failed(2)] path_inv_fail [OF _ _ failed(3)] assms(3,4) show ?thesis by simp
next
  case (closed d s1 s2)
  from path_inv_core [OF closed(4)] assms(3,4)
  have "history_inv (CryptoSession_setState Closed s2)" "history_inv s2"
    by (auto simp: active_def intro!: history_inv_set) (auto intro!: history_inv_same)
  with closed(5) show ?thesis by auto
next
  case (received ret d s1 p)
  with assms(4) show ?thesis
    by (auto simp: history_inv_def CryptoSession_propagate_def path_inv_def same_core_def)
next
  case (escaped v s1)
  with path_inv_core [OF escaped(2)] path_inv_same [of s1 s'] assms(4) show ?thesis
    by (auto intro!: history_inv_same)
qed

lemma handleHandshake_history:
  "handleHandshake f G E s = Some (r, s') \<Longrightarrow> cs_state s = Opening \<or> cs_state s = Renegotiating \<Longrightarrow>
   path_inv s (cs_state s) \<Longrightarrow> history_inv s'"
proof (induction f arbitrary: s r s')
  case (Suc f)
  from Suc.prems(1) show ?case
  proof (cases rule: handleHandshake_cases)
    case (data f' s1)
    with path_inv_core [OF data(3)] Suc.prems handleData_history [OF Suc.IH] show ?thesis
      by (auto simp: active_def)
  next
    case again
    with path_inv_core [OF again(2)] Suc.prems show ?thesis by (auto intro!: history_inv_same)
  next
    case (opened s1)
    with path_inv_core [OF opened(2)] Suc.prems show ?thesis by (auto intro!: history_inv_set)
  next
    case (failed ret s1)
    with path_inv_core [OF failed(2)] path_inv_fail [OF _ _ failed(3)] Suc.prems show ?thesis by (auto simp: active_def)
  next
    case escaped
    with path_inv_same [of s s'] Suc.prems show ?thesis by (auto intro!: history_inv_same)
  qed
qed simp

lemma session_step_history:
  assumes "session_step fuel G E op s = Some (r, s')" and "history_inv s"
  shows "history_inv s'"
proof (cases "ready op (cs_state s)")
  case True
  then have st: "path_inv s (cs_state s)"
    using assms(2) by (cases op) (auto simp: history_inv_def)
  from assms(1) True show ?thesis
  proof (cases rule: session_step_ready)
    case start
    with True st have "path_inv (CryptoSession_setState Opening s) Opening" by (auto intro!: path_inv_set)
    with handleHandshake_history [OF start(2)] show ?thesis by (simp add: session_state.state_set)
  next
    case (handshake p)
    with handleHandshake_history [OF handshake(3)] st show ?thesis by (simp add: path_inv_def)
  next
    case (data p)
    with handleData_history [OF handleHandshake_history data(3)] st show ?thesis by (simp add: path_inv_def active_def)
  next
    case (renegotiate v s1)
    with path_inv_core [OF renegotiate(3)] st True show ?thesis by (auto intro!: history_inv_set)
  next
    case (closing v s1)
    with path_inv_core [OF closing(3)] st True show ?thesis by (auto intro!: history_inv_set)
  next
    case (sent v p)
    with path_inv_core [OF sent(3)] st show ?thesis by (auto intro!: history_inv_same)
  next
    case escaped
    with path_inv_same [of s s'] st show ?thesis by (auto intro!: history_inv_same)
  qed
next
  case False
  from session_step_not_ready [OF this, of fuel G E] assms path_inv_same [of s s'] show ?thesis
    by (auto simp: history_inv_def)
qed

text \<open>
  C7. Listeners follow the state machine: whatever operations are called, the states announced by
  \<^verbatim>\<open>stateChanged\<close> are a path of the machine from \<^verbatim>\<open>Invalid\<close>, and it ends in the current state, unless the
  session has failed: \<^verbatim>\<open>fail\<close> moves an active session to \<^verbatim>\<open>Aborted\<close> without announcing it.
\<close>

theorem announced_states:
  assumes "CryptoSession_new G connectRead h nx = Ret s0" and "session_reach G E s0 s"
  shows "\<exists>q. hd (cs_changed s @ [q]) = Invalid \<and> successively state_change (cs_changed s @ [q])
    \<and> (cs_state s = q \<or> cs_state s = Aborted \<and> active q)"
proof -
  from assms(2) have "history_inv s"
  proof (induction rule: session_reach.induct)
    case reach_start
    from assms(1) show ?case
      by (auto simp: CryptoSession_new_def history_inv_def path_inv_def Let_def split: option.splits)
  next
    case (reach_step s fuel op r s')
    then show ?case using session_step_history by blast
  qed
  then show ?thesis by (auto simp: history_inv_def path_inv_def)
qed

theorem announced_states_witness:
  "\<exists>q. hd (cs_changed opened @ [q]) = Invalid \<and> successively state_change (cs_changed opened @ [q])
    \<and> (cs_state opened = q \<or> cs_state opened = Aborted \<and> active q) \<and> cs_changed opened = [Invalid, Opening]"
  using announced_states [OF new_null reach_step [OF reach_start open_null]] by (simp add: opened_def)

section \<open>Termination of the handlers\<close>

text \<open>
  What a library call may have left to process when it returns: \<open>b\<close> bytes to begin with, and those it pulls.
  A weakest precondition for trees of callbacks, whatever the callbacks answer.
\<close>

primrec within :: "'r gcall \<Rightarrow> ('r \<Rightarrow> nat \<Rightarrow> bool) \<Rightarrow> nat \<Rightarrow> bool" where
  "within (Done r) = (\<lambda>Q b. Q r b)"
| "within (Pull n k) = (\<lambda>Q b. \<forall>v d. within (k (v, d)) Q (b + length d))"
| "within (PullTimeout ms k) = (\<lambda>Q b. \<forall>v. within (k v) Q b)"
| "within (Push d k) = (\<lambda>Q b. \<forall>v. within (k v) Q b)"
| "within (VecPush ds k) = (\<lambda>Q b. \<forall>v. within (k v) Q b)"

text \<open>
  What the recursion relies on: \<open>m g\<close> is the number of bytes that the library has received and not yet
  processed. A renegotiation request is a message of the peer, so a call that reports one has processed a
  byte that was received earlier or pulled by the call itself; a handshake that is interrupted by application
  data has at most the bytes left that it had or pulled.
\<close>

definition consumes :: "'g gnutls \<Rightarrow> ('g \<Rightarrow> nat) \<Rightarrow> bool" where
  "consumes G m \<longleftrightarrow>
     (\<forall>g n. within (g_record_recv G g n) (\<lambda>((ret, d), g') b. ret = E_REHANDSHAKE \<longrightarrow> m g' < b) (m g)) \<and>
     (\<forall>g. within (g_handshake G g) (\<lambda>(ret, g') b. ret = E_GOT_APPLICATION_DATA \<longrightarrow> m g' \<le> b) (m g))"

text \<open>What a session has left to process: what the library has, and the packet that it has not pulled yet.\<close>

definition pending :: "('g, 'n) session \<Rightarrow> nat" where
  "pending s = (case cs_currentPacket s of None \<Rightarrow> 0 | Some p \<Rightarrow> length (view p))"

definition budget :: "('g \<Rightarrow> nat) \<Rightarrow> ('g, 'n) session \<Rightarrow> nat" where
  "budget m s = m (cs_session s) + pending s"

lemma run_gcall_within:
  "run_gcall t E s = (Ret v, s') \<Longrightarrow> within t Q b \<Longrightarrow> \<exists>b'. Q v b' \<and> b' + pending s' \<le> b + pending s"
proof (induction t arbitrary: s b)
  case (Done x)
  then show ?case by auto
next
  case (Pull n k)
  from Pull.prems(1) obtain w d s1 where c: "CryptoSession_pull s n = (Ret (w, d), s1)" and k: "run_gcall (k (w, d)) E s1 = (Ret v, s')"
    by (auto split: prod.splits outcome.splits)
  have "length d + pending s1 \<le> pending s"
    using pull_prefix [OF c] by (auto simp: pending_def)
  moreover obtain b' where "Q v b'" "b' + pending s' \<le> b + length d + pending s1"
    using Pull.IH [OF _ k, of "b + length d"] Pull.prems(2) by auto
  ultimately show ?case by (intro exI [of _ b']) simp
next
  case (PullTimeout ms k)
  then show ?case using PullTimeout.IH [of "k (CryptoSession_pull_timeout s ms)" s b] by simp
next
  case (Push d k)
  from Push.prems(1) obtain w s1 where c: "CryptoSession_push E s d = (Ret w, s1)" and k: "run_gcall (k w) E s1 = (Ret v, s')"
    by (auto split: prod.splits outcome.splits)
  from c have "pending s1 = pending s" by (auto simp: CryptoSession_push_def pending_def split: prod.splits)
  with Push.IH [OF _ k] Push.prems(2) show ?case by auto
next
  case (VecPush ds k)
  from VecPush.prems(1) obtain w s1 where c: "CryptoSession_vec_push E s ds = (Ret w, s1)" and k: "run_gcall (k w) E s1 = (Ret v, s')"
    by (auto split: prod.splits outcome.splits)
  from c have "pending s1 = pending s" by (auto simp: CryptoSession_vec_push_def pending_def Let_def split: prod.splits)
  with VecPush.IH [OF _ k] VecPush.prems(2) show ?case by auto
qed

lemma call_within:
  assumes "call_gnutls E t s = (Ret v, s')" and "within t (\<lambda>(v, g') b. Q v g' b) (m (cs_session s))"
  shows "\<exists>b. Q v (cs_session s') b \<and> b + pending s' \<le> budget m s"
proof -
  from assms(1) obtain g s1 where run: "run_gcall t E s = (Ret (v, g), s1)" and s': "s' = s1\<lparr>cs_session := g\<rparr>"
    by (auto simp: call_gnutls_def split: prod.splits outcome.splits)
  from run_gcall_within [OF run assms(2)] s' show ?thesis by (simp add: pending_def budget_def)
qed

lemma budget_falls:
  assumes "consumes G m"
  shows "call_gnutls E (g_record_recv G (cs_session s) n) s = (Ret (E_REHANDSHAKE, d), s') \<Longrightarrow> budget m s' < budget m s"
    and "call_gnutls E (g_handshake G (cs_session s)) s = (Ret E_GOT_APPLICATION_DATA, s') \<Longrightarrow> budget m s' \<le> budget m s"
proof -
  from assms have "within (g_record_recv G (cs_session s) n)
      (\<lambda>(v, g') b. fst v = E_REHANDSHAKE \<longrightarrow> m g' < b) (m (cs_session s))"
    and hs: "within (g_handshake G (cs_session s)) (\<lambda>(ret, g') b. ret = E_GOT_APPLICATION_DATA \<longrightarrow> m g' \<le> b) (m (cs_session s))"
    by (simp_all add: consumes_def case_prod_unfold)
  from call_within [where m = m and s = s, OF _ this(1)]
  show "call_gnutls E (g_record_recv G (cs_session s) n) s = (Ret (E_REHANDSHAKE, d), s') \<Longrightarrow> budget m s' < budget m s"
    by (fastforce simp: budget_def)
  from call_within [where m = m and s = s, OF _ hs]
  show "call_gnutls E (g_handshake G (cs_session s)) s = (Ret E_GOT_APPLICATION_DATA, s') \<Longrightarrow> budget m s' \<le> budget m s"
    by (fastforce simp: budget_def)
qed

lemma budget_setState [simp]: "budget m (CryptoSession_setState st s) = budget m s"
  by (simp add: budget_def pending_def CryptoSession_setState_def Let_def)

lemma handleData_terminates:
  assumes "consumes G m" and hh: "\<And>s. budget m s < f \<Longrightarrow> handleHandshake f G E s \<noteq> None"
    and "budget m s \<le> f"
  shows "handleData f G E s \<noteq> None"
proof (rule call_gnutls_elim [of E "g_record_recv G (cs_session s) (of_nat bufferSize)" s])
  fix v s1
  assume c: "call_gnutls E (g_record_recv G (cs_session s) (of_nat bufferSize)) s = (Ret v, s1)"
  obtain ret d where v: "v = (ret, d)" by fastforce
  with c budget_falls(1) [OF assms(1), of E s "of_nat bufferSize" d s1] assms(3)
  have "ret = E_REHANDSHAKE \<Longrightarrow> budget m (CryptoSession_setState Renegotiating s1) < f" by simp
  with c v hh show ?thesis
    by (auto simp: handleData.simps Let_def split: prod.splits outcome.splits)
qed (simp_all add: handleData.simps)

lemma handleHandshake_terminates:
  assumes "consumes G m"
  shows "budget m s < f \<Longrightarrow> handleHandshake f G E s \<noteq> None"
proof (induction f arbitrary: s)
  case (Suc f)
  show ?case
  proof (rule call_gnutls_elim [of E "g_handshake G (cs_session s)" s])
    fix ret s1
    assume c: "call_gnutls E (g_handshake G (cs_session s)) s = (Ret ret, s1)"
    with budget_falls(2) [OF assms, of E s s1] Suc.prems have "ret = E_GOT_APPLICATION_DATA \<Longrightarrow> budget m s1 \<le> f" by simp
    with handleData_terminates [OF assms Suc.IH] c show ?thesis by (auto simp: handleHandshake.simps)
  qed (simp_all add: handleHandshake.simps)
qed simp

text \<open>More fuel gives the same result.\<close>

lemma handleData_more_fuel:
  assumes "\<And>s r. handleHandshake f G E s = Some r \<Longrightarrow> handleHandshake (Suc f) G E s = Some r"
    and "handleData f G E s = Some r"
  shows "handleData (Suc f) G E s = Some r"
proof (rule call_gnutls_elim [of E "g_record_recv G (cs_session s) (of_nat bufferSize)" s])
  fix v s1
  assume c: "call_gnutls E (g_record_recv G (cs_session s) (of_nat bufferSize)) s = (Ret v, s1)"
  obtain ret d where "v = (ret, d)" by fastforce
  with assms c show ?thesis
    by (auto simp: handleData.simps split: if_splits)
qed (use assms(2) in \<open>simp_all add: handleData.simps\<close>)

lemma handleHandshake_more_fuel:
  "handleHandshake f G E s = Some r \<Longrightarrow> handleHandshake (Suc f) G E s = Some r"
proof (induction f arbitrary: s r)
  case (Suc f)
  show ?case
  proof (rule call_gnutls_elim [of E "g_handshake G (cs_session s)" s])
    fix ret s1
    assume c: "call_gnutls E (g_handshake G (cs_session s)) s = (Ret ret, s1)"
    with handleData_more_fuel [OF Suc.IH] Suc.prems show ?thesis
      by (auto simp: handleHandshake.simps(2) split: if_splits)
  qed (use Suc.prems in \<open>simp_all add: handleHandshake.simps(2)\<close>)
qed simp

lemma session_step_Suc:
  assumes "session_step f G E op s = Some r"
  shows "session_step (Suc f) G E op s = Some r"
proof -
  have hh: "handleHandshake f G E t = Some r \<Longrightarrow> handleHandshake (Suc f) G E t = Some r" for t
    by (rule handleHandshake_more_fuel)
  have hd: "handleData f G E t = Some r \<Longrightarrow> handleData (Suc f) G E t = Some r" for t
    using handleData_more_fuel handleHandshake_more_fuel by blast
  show ?thesis
  proof (cases op)
    case OpOpen
    with assms hh [of "CryptoSession_setState Opening s"] show ?thesis
      by (simp add: CryptoSession_open_def split: if_splits)
  next
    case (OpRead p)
    with assms hh [of "s\<lparr>cs_currentPacket := Some p\<rparr>"] hd [of "s\<lparr>cs_currentPacket := Some p\<rparr>"] show ?thesis
      by (cases "cs_state s") (simp_all add: CryptoSession_readPacket_def handlePacket_def)
  qed (use assms in simp_all)
qed

lemma session_step_more_fuel: "session_step f G E op s = Some r \<Longrightarrow> session_step (f + k) G E op s = Some r"
  by (induction k) (simp_all add: session_step_Suc)

text \<open>\<^verbatim>\<open>readPacket\<close> stores its packet before anything else, also when it is refused.\<close>

fun stored :: "session_op \<Rightarrow> ('g, 'n) session \<Rightarrow> ('g, 'n) session" where
  "stored (OpRead p) s = s\<lparr>cs_currentPacket := Some p\<rparr>"
| "stored _ s = s"

lemma session_step_terminates:
  assumes "consumes G m" and "budget m (stored op s) < f"
  shows "session_step f G E op s \<noteq> None"
proof -
  have hh: "budget m t < f \<Longrightarrow> handleHandshake f G E t \<noteq> None" for t
    by (rule handleHandshake_terminates [OF assms(1)])
  have hd: "budget m t < f \<Longrightarrow> handleData f G E t \<noteq> None" for t
    using handleData_terminates [OF assms(1) hh] by simp
  show ?thesis
  proof (cases op)
    case OpOpen
    moreover have "handleHandshake f G E (CryptoSession_setState Opening s) \<noteq> None"
      using OpOpen assms(2) hh [of "CryptoSession_setState Opening s"] by simp
    ultimately show ?thesis by (simp add: CryptoSession_open_def)
  next
    case (OpRead p)
    with assms(2) hh [of "s\<lparr>cs_currentPacket := Some p\<rparr>"] hd [of "s\<lparr>cs_currentPacket := Some p\<rparr>"] show ?thesis
      by (simp add: CryptoSession_readPacket_def handlePacket_def)
  qed (simp_all split: prod.split)
qed

text \<open>
  C9. The recursion of the handlers ends: \<^verbatim>\<open>handleHandshake\<close> and \<^verbatim>\<open>handleData\<close> call each other at most once for
  every byte that the library has not processed yet, those of the packet at hand included. With more fuel than
  these bytes every operation comes to an end, and any greater amount of fuel gives the same result. (A
  write below that never comes back is not a matter of this recursion; it is the outcome \<open>NoReturn\<close>.)
\<close>

theorem session_operations_return:
  assumes "consumes G m" and "budget m (stored op s) < f"
  shows "\<exists>r s'. \<forall>k. session_step (f + k) G E op s = Some (r, s')"
proof -
  obtain r s' where "session_step f G E op s = Some (r, s')"
    using session_step_terminates [OF assms] by fastforce
  then show ?thesis using session_step_more_fuel by blast
qed

text \<open>
  A library for the example, whose handle counts the bytes it has not processed: every byte of a datagram is
  a renegotiation request, and a handshake is interrupted as long as there are any.
\<close>

definition asking_gnutls :: "nat gnutls" where
  "asking_gnutls =
     \<lparr>g_transport_set = (\<lambda>_ g. g),
      g_handshake = (\<lambda>g. Done (if g = 0 then E_AGAIN else E_GOT_APPLICATION_DATA, g)),
      g_record_recv = (\<lambda>g n. Pull n (\<lambda>(k, d). Done (if g + length d = 0 then ((E_AGAIN, []), 0)
          else ((E_REHANDSHAKE, []), g + length d - 1)))),
      g_record_send = (\<lambda>g d. Done (E_AGAIN, g)), g_rehandshake = (\<lambda>g. Done (E_SUCCESS, g)),
      g_bye = (\<lambda>g. Done (E_SUCCESS, g)), g_alert_get = (\<lambda>_. 0), g_strerror = (\<lambda>_. [])\<rparr>"

lemma consumes_asking: "consumes asking_gnutls (\<lambda>g. g)"
  by (simp add: consumes_def asking_gnutls_def E_REHANDSHAKE_def E_AGAIN_def)

definition asked :: "(nat, packet list) session" where
  "asked = \<lparr>st_slots = [], st_raised = [], cs_next = [], cs_state = Open, cs_session = 0,
     cs_currentPacket = None, cs_changed = [Invalid, Opening], cs_changed_slots = []\<rparr>"

lemma asked_pull:
  "CryptoSession_pull (asked\<lparr>cs_currentPacket := Some (Packet_new 1 [7, 8] 0 2)\<rparr>) (of_nat bufferSize) = (Ret (2, [7, 8]), asked)"
proof -
  let ?p = "Packet_new 1 [7, 8] 0 2"
  have "wf_packet ?p" "view ?p = [7, 8]"
    by (simp_all add: wf_packet_def Packet_new_def view_def Packet_data_def Packet_length_def)
  moreover have "unat (of_nat bufferSize :: size_t) = 65536" by (simp add: bufferSize_def)
  ultimately show ?thesis
    using pull_packet [of "asked\<lparr>cs_currentPacket := Some ?p\<rparr>" ?p "of_nat bufferSize"] by (simp add: asked_def)
qed

text \<open>With too little fuel the two requests in the datagram cannot both be handled.\<close>

lemma asked_twice: "session_step 1 asking_gnutls log_env (OpRead (Packet_new 1 [7, 8] 0 2)) asked = None"
proof -
  have "asked\<lparr>cs_currentPacket := x, cs_session := g\<rparr> = asked\<lparr>cs_session := g, cs_currentPacket := x\<rparr>" for x g by simp
  moreover have "cs_session asked = 0" "cs_state asked = Open" "cs_currentPacket asked = None" by (simp_all add: asked_def)
  ultimately show ?thesis
    using asked_pull
    by (simp add: CryptoSession_readPacket_def handlePacket_def handleData.simps handleHandshake.simps(2) call_gnutls_def
        asking_gnutls_def CryptoSession_setState_def pull_empty E_REHANDSHAKE_def E_AGAIN_def E_GOT_APPLICATION_DATA_def)
qed

theorem session_operations_return_witness:
  "session_step 1 asking_gnutls log_env (OpRead (Packet_new 1 [7, 8] 0 2)) asked = None
   \<and> (\<exists>r s'. \<forall>k. session_step (3 + k) asking_gnutls log_env (OpRead (Packet_new 1 [7, 8] 0 2)) asked = Some (r, s'))"
proof -
  have "budget (\<lambda>g. g) (stored (OpRead (Packet_new 1 [7, 8] 0 2)) asked) < 3"
    by (simp add: budget_def pending_def view_simps asked_def)
  from session_operations_return [OF consumes_asking this] show ?thesis using asked_twice by blast
qed

section \<open>Guards\<close>

lemma session_step_refused:
  "\<not> ready op (cs_state s) \<Longrightarrow> session_step fuel G E op s = Some (Throw (InvalidOperation ''Session not ready''), stored op s)"
  by (cases op; cases "cs_state s")
    (simp_all add: CryptoSession_open_def CryptoSession_renegotiate_def CryptoSession_close_def
      CryptoSession_readPacket_def CryptoSession_write_def handlePacket_def)

text \<open>
  C8. Operations are refused outside their states: in a state in which an operation is not allowed it
  throws \<^verbatim>\<open>InvalidOperation\<close> and leaves the session as it is, except that \<^verbatim>\<open>readPacket\<close> has already replaced the
  current packet by the one it refuses. \<^verbatim>\<open>Closed\<close> and \<^verbatim>\<open>Aborted\<close> are final: nothing a program does with such
  a session changes anything of it but the current packet, nor puts anything on the wire. In a new session the
  refused packet is not gone: the handshake that \<^verbatim>\<open>open\<close> starts finds it.
\<close>

theorem refused_operations:
  "(\<not> ready op (cs_state s) \<longrightarrow>
      session_step fuel G E op s = Some (Throw (InvalidOperation ''Session not ready''),
        case op of OpRead p \<Rightarrow> s\<lparr>cs_currentPacket := Some p\<rparr> | _ \<Rightarrow> s))
   \<and> (cs_state s = Closed \<or> cs_state s = Aborted \<longrightarrow> session_reach G E s t \<longrightarrow> t = s\<lparr>cs_currentPacket := cs_currentPacket t\<rparr>)
   \<and> (cs_state s = Invalid \<longrightarrow>
        session_step fuel G E (OpRead p) s = Some (Throw (InvalidOperation ''Session not ready''), s\<lparr>cs_currentPacket := Some p\<rparr>)
        \<and> session_step fuel G E OpOpen (s\<lparr>cs_currentPacket := Some p\<rparr>)
          = handleHandshake fuel G E (s\<lparr>cs_currentPacket := Some p, cs_state := Opening, cs_changed := cs_changed s @ [Invalid]\<rparr>))"
proof (intro conjI impI)
  assume "\<not> ready op (cs_state s)"
  then show "session_step fuel G E op s = Some (Throw (InvalidOperation ''Session not ready''),
      case op of OpRead p \<Rightarrow> s\<lparr>cs_currentPacket := Some p\<rparr> | _ \<Rightarrow> s)"
    using session_step_refused [of op s fuel G E] by (cases op) simp_all
next
  assume "cs_state s = Closed \<or> cs_state s = Aborted" "session_reach G E s t"
  from this(2,1) show "t = s\<lparr>cs_currentPacket := cs_currentPacket t\<rparr>"
  proof (induction rule: session_reach.induct)
    case (reach_step u f oper r u')
    then have u: "u = s\<lparr>cs_currentPacket := cs_currentPacket u\<rparr>" by blast
    then have "cs_state u = cs_state s" by (metis session.select_convs(2) session.surjective session.update_convs(4))
    with reach_step.prems have "\<not> ready oper (cs_state u)" by (cases oper) auto
    with session_step_refused [OF this, of f G E] reach_step.hyps(2) have "u' = stored oper u" by simp
    then have "u' = u\<lparr>cs_currentPacket := cs_currentPacket u'\<rparr>" by (cases oper) simp_all
    moreover have "u\<lparr>cs_currentPacket := x\<rparr> = s\<lparr>cs_currentPacket := x\<rparr>" for x by (subst u) simp
    ultimately show ?case by metis
  qed simp
next
  assume "cs_state s = Invalid"
  then show "session_step fuel G E (OpRead p) s = Some (Throw (InvalidOperation ''Session not ready''), s\<lparr>cs_currentPacket := Some p\<rparr>)"
    and "session_step fuel G E OpOpen (s\<lparr>cs_currentPacket := Some p\<rparr>)
      = handleHandshake fuel G E (s\<lparr>cs_currentPacket := Some p, cs_state := Opening, cs_changed := cs_changed s @ [Invalid]\<rparr>)"
    by (simp_all add: CryptoSession_readPacket_def handlePacket_def CryptoSession_open_def CryptoSession_setState_def)
qed

theorem refused_operations_witness:
  "session_step 5 null_gnutls log_env (OpRead (Packet_new 1 [7] 0 1)) (opened\<lparr>cs_state := Closed\<rparr>)
      = Some (Throw (InvalidOperation ''Session not ready''), opened\<lparr>cs_state := Closed, cs_currentPacket := Some (Packet_new 1 [7] 0 1)\<rparr>)
   \<and> session_step 5 null_gnutls log_env OpOpen (opened\<lparr>cs_state := Closed\<rparr>)
      = Some (Throw (InvalidOperation ''Session not ready''), opened\<lparr>cs_state := Closed\<rparr>)"
  using refused_operations [of "OpRead (Packet_new 1 [7] 0 1)" "opened\<lparr>cs_state := Closed\<rparr>" 5 null_gnutls log_env]
    refused_operations [of OpOpen "opened\<lparr>cs_state := Closed\<rparr>" 5 null_gnutls log_env]
  by (simp add: opened_def)

section \<open>Transport callbacks\<close>

text \<open>
  C35. A datagram is given to the library once: after \<^verbatim>\<open>readPacket\<close> stored a packet of less than
  $2^{31}$ bytes, \<^verbatim>\<open>pull_timeout\<close> reports its length and the first \<^verbatim>\<open>pull\<close> its bytes up to the size of the
  buffer; a second \<^verbatim>\<open>pull\<close> gets \<^verbatim>\<open>EAGAIN\<close> and \<^verbatim>\<open>pull_timeout\<close> zero, and the rest of a datagram that did not fit
  is gone.
\<close>

theorem datagram_pulled_once:
  assumes "wf_packet p" and "length (view p) < 2 ^ 31"
  shows "\<exists>s2. CryptoSession_pull (s\<lparr>cs_currentPacket := Some p\<rparr>) n
        = (Ret (int (min (unat n) (length (view p))), take (unat n) (view p)), s2)
    \<and> CryptoSession_pull_timeout (s\<lparr>cs_currentPacket := Some p\<rparr>) ms = int (length (view p))
    \<and> CryptoSession_pull s2 n' = (Ret (- 1, []), s2) \<and> CryptoSession_pull_timeout s2 ms = 0"
proof -
  have "CryptoSession_pull (s\<lparr>cs_currentPacket := Some p\<rparr>) n
      = (Ret (int (min (unat n) (length (view p))), take (unat n) (view p)), s\<lparr>cs_currentPacket := None\<rparr>)"
    using pull_packet [of "s\<lparr>cs_currentPacket := Some p\<rparr>" p n] assms by (auto simp: Let_def min_def)
  moreover have "CryptoSession_pull_timeout (s\<lparr>cs_currentPacket := Some p\<rparr>) ms = int (length (view p))"
    using assms sint_ucast_small [of "pk_length p"]
    by (simp add: CryptoSession_pull_timeout_def Packet_length_def length_view)
  ultimately show ?thesis
    using pull_empty [of "s\<lparr>cs_currentPacket := None\<rparr>" n'] by (simp add: CryptoSession_pull_timeout_def)
qed

theorem datagram_pulled_once_witness:
  "\<exists>s2. CryptoSession_pull (opened\<lparr>cs_currentPacket := Some (Packet_new 1 [7, 8, 9] 0 3)\<rparr>) 2 = (Ret (2, [7, 8]), s2)
     \<and> CryptoSession_pull s2 2 = (Ret (- 1, []), s2)"
proof -
  let ?p = "Packet_new 1 [7, 8, 9] 0 3"
  have "wf_packet ?p" "view ?p = [7, 8, 9]"
    by (simp_all add: wf_packet_def Packet_new_def view_def Packet_data_def Packet_length_def)
  then show ?thesis
    using datagram_pulled_once [of ?p opened 2 0 2] by auto
qed




section \<open>Delivery\<close>

lemma handleData_delivers:
  assumes hh: "\<And>s r s'. handleHandshake f G E s = Some (r, s') \<Longrightarrow> st_raised s' = st_raised s \<or> r = UB DoubleFree"
    and "handleData f G E s = Some (r, s')"
  shows "st_raised s' = st_raised s \<or> r = UB DoubleFree"
  using assms(2)
proof (cases rule: handleData_cases)
  case (rehandshake d s1)
  from hh [OF rehandshake(3)] rehandshake(2) show ?thesis by (auto simp: same_core_def session_ops Let_def)
qed (auto simp: same_core_def session_ops Let_def)

lemma handleHandshake_delivers:
  "handleHandshake f G E s = Some (r, s') \<Longrightarrow> st_raised s' = st_raised s \<or> r = UB DoubleFree"
proof (induction f arbitrary: s r s')
  case (Suc f)
  from Suc.prems show ?case
  proof (cases rule: handleHandshake_cases)
    case (data f' s1)
    then have "handleData f G E s1 = Some (r, s')" by simp
    from handleData_delivers [OF Suc.IH this] data(3) show ?thesis by (simp add: same_core_def)
  qed (auto simp: same_core_def session_ops Let_def)
qed simp

text \<open>
  C18. No application data is ever delivered without undefined behaviour: every operation of a session that
  hands a packet to the readers ends in a second deletion of the packet's block, which \<^verbatim>\<open>handleData\<close> passes to the
  packet and keeps owning. And whenever GnuTLS sends through \<^verbatim>\<open>vec_push\<close> anything at all, the buffers it only lends
  are deleted.
\<close>

theorem delivery_undefined:
  assumes "session_step fuel G E op s = Some (r, s')" and "st_raised s' \<noteq> st_raised s" and "iov \<noteq> []"
  shows "r = UB DoubleFree \<and> (\<exists>u. fst (CryptoSession_vec_push E t iov) = UB u)"
proof
  show "r = UB DoubleFree"
  proof (cases "ready op (cs_state s)")
    case True
    from assms(1) True show ?thesis
    proof (cases rule: session_step_ready)
      case start
      from handleHandshake_delivers [OF start(2)] assms(2) show ?thesis by (simp add: session_ops Let_def)
    next
      case (handshake p)
      from handleHandshake_delivers [OF handshake(3)] assms(2) show ?thesis by simp
    next
      case (data p)
      from handleData_delivers [OF handleHandshake_delivers data(3)] assms(2) show ?thesis by simp
    qed (use assms(2) in \<open>auto simp: same_core_def session_ops Let_def\<close>)
  next
    case False
    from session_step_not_ready [OF this, of fuel G E] assms(1,2) show ?thesis by (auto simp: same_core_def)
  qed
  show "\<exists>u. fst (CryptoSession_vec_push E t iov) = UB u"
    using vec_push_defined [of E t iov] assms(3) by (metis prod.collapse)
qed

theorem delivery_undefined_witness:
  "\<exists>r s'. session_step 1 null_gnutls log_env (OpRead (Packet_new 1 [7, 8] 0 2)) opened = Some (r, s')
     \<and> r = UB DoubleFree \<and> (\<exists>u. fst (CryptoSession_vec_push log_env opened [[1, 2]]) = UB u)"
proof -
  have "st_raised (opened\<lparr>st_raised := [Packet_new 2 [7, 8] 0 2]\<rparr>) \<noteq> st_raised opened"
    by (simp add: opened_def)
  from delivery_undefined [OF recv_null this, of "[[1, 2]]" opened] recv_null show ?thesis by blast
qed

end
