(* ===== verification/Session_Context.thy ===== *)
theory Session_Context
  imports Session_Auth
begin

text \<open>
  \<^verbatim>\<open>CryptoContext\<close> and \<^verbatim>\<open>CryptoSession\<close> together: what \<^verbatim>\<open>openSession\<close> returns or throws on every path, and
  what the certificate check of the context finds when GnuTLS calls it on a session that was opened so.
\<close>

section \<open>Opening\<close>

text \<open>
  \<^verbatim>\<open>openSession\<close> on every path: it throws the library's error exactly if allocating the session or
  setting its credentials failed, in the second case without releasing the session; otherwise the new
  session is in state \<^verbatim>\<open>Invalid\<close>, has no packet, has told nobody anything, is connected to the stream below
  and has asked for the peer's certificate exactly if it is a server.
\<close>

theorem open_session_result:
  "case openSession G ginit credentials_set set_request connectRead nx server of
     (Ret s, leaked) \<Rightarrow> leaked = [] \<and> cs_state s = Invalid \<and> cs_currentPacket s = None \<and> cs_changed s = []
        \<and> st_raised s = [] \<and> cs_next s = connectRead nx
        \<and> (\<exists>g. fst (ginit [if server then GNUTLS_SERVER else GNUTLS_CLIENT, GNUTLS_DATAGRAM, GNUTLS_NONBLOCK]) \<ge> 0
            \<and> g = snd (credentials_set (snd (ginit [if server then GNUTLS_SERVER else GNUTLS_CLIENT, GNUTLS_DATAGRAM, GNUTLS_NONBLOCK])))
            \<and> cs_session s = fold (g_transport_set G) [SetPtr, SetPull, SetPullTimeout, SetPush, SetVecPush]
                (if server then set_request g else g))
   | (Throw e, leaked) \<Rightarrow> (\<exists>err < 0. e = CryptoException err 0 (g_strerror G err))
        \<and> (leaked \<noteq> [] \<longleftrightarrow>
            fst (ginit [if server then GNUTLS_SERVER else GNUTLS_CLIENT, GNUTLS_DATAGRAM, GNUTLS_NONBLOCK]) \<ge> 0)
   | (UB u, leaked) \<Rightarrow> False"
  by (auto simp: openSession_def CryptoSession_new_def Let_def split: prod.splits if_splits)

section \<open>The user pointer\<close>

text \<open>
  \<open>ptr\<close> is \<^verbatim>\<open>gnutls_session_get_ptr\<close>, followed to the context of the session object it points to, \<open>None\<close>
  for a null pointer. As documented, a new session has no user pointer, and only
  \<^verbatim>\<open>gnutls_session_set_ptr\<close> sets one, none of the functions that the program calls: the transport
  pointer and the transport functions are separate fields.
\<close>

definition user_pointer_laws ::
  "'g gnutls \<Rightarrow> (gnutls_flag list \<Rightarrow> int \<times> 'g) \<Rightarrow> ('g \<Rightarrow> int \<times> 'g) \<Rightarrow> ('g \<Rightarrow> 'g) \<Rightarrow> ('g \<Rightarrow> crypto_context option) \<Rightarrow> bool" where
  "user_pointer_laws G ginit credentials_set set_request ptr \<longleftrightarrow>
     (\<forall>flags. ptr (snd (ginit flags)) = None) \<and>
     (\<forall>g. ptr (snd (credentials_set g)) = ptr g) \<and> (\<forall>g. ptr (set_request g) = ptr g) \<and>
     (\<forall>t g. ptr (g_transport_set G t g) = ptr g) \<and>
     (\<forall>c. keeps_handle G (\<lambda>g. ptr g = c))"

lemma opened_no_pointer:
  assumes "user_pointer_laws G ginit credentials_set set_request ptr"
    and "openSession G ginit credentials_set set_request connectRead nx server = (Ret s, leaked)"
  shows "ptr (cs_session s) = None"
  using assms by (auto simp: user_pointer_laws_def openSession_def CryptoSession_new_def Let_def split: prod.splits if_splits)
    (metis snd_conv)+

text \<open>
  C17. The certificate check never gets as far as the certificate: the constructor of a session stores
  \<^verbatim>\<open>this\<close> as transport pointer, the check asks for the user pointer, and in every state that a program can
  bring an opened session into this pointer is null. Whatever GnuTLS would report about the peer, the
  first statement of the check dereferences a null pointer.
\<close>

theorem verification_dereferences_null:
  assumes "user_pointer_laws G ginit credentials_set set_request ptr"
    and "openSession G ginit credentials_set set_request connectRead nx server = (Ret s0, leaked)"
    and "session_reach G E s0 s"
  shows "gnutls_certificate_verify (ptr (cs_session s)) V = (UB NullDeref, [])"
proof -
  have "keeps_handle G (\<lambda>g. ptr g = None)"
    using assms(1) by (simp add: user_pointer_laws_def)
  then have "ptr (cs_session s) = None"
    using assms(3) opened_no_pointer [OF assms(1,2)] by (rule session_reach_keeps)
  then show ?thesis by (simp add: gnutls_certificate_verify_def)
qed

lemma null_user_pointer:
  "user_pointer_laws null_gnutls (\<lambda>flags. (0, False)) (\<lambda>g. (0, g)) (\<lambda>g. g) (\<lambda>g. None)"
  by (simp add: user_pointer_laws_def keeps_handle_def)

theorem verification_dereferences_null_witness:
  "\<exists>s0 s. openSession null_gnutls (\<lambda>flags. (0, False)) (\<lambda>g. (0, g)) (\<lambda>g. g) (\<lambda>n. n) [] True = (Ret s0, [])
     \<and> session_step 1 null_gnutls log_env OpOpen s0 = Some (Ret (), s) \<and> cs_state s = Open
     \<and> (\<forall>V. gnutls_certificate_verify None V = (UB NullDeref, []))"
proof -
  let ?s0 = "opened\<lparr>cs_state := Invalid, cs_session := False, cs_changed := []\<rparr>"
  have o: "openSession null_gnutls (\<lambda>flags. (0, False)) (\<lambda>g. (0, g)) (\<lambda>g. g) (\<lambda>n. n) [] True = (Ret ?s0, [])"
    by (simp add: openSession_def new_null)
  have st: "session_step 1 null_gnutls log_env OpOpen ?s0 = Some (Ret (), opened)"
    by (simp add: CryptoSession_open_def handleHandshake.simps(2) session_ops call_gnutls_def null_gnutls_def
        opened_def E_SUCCESS_def E_AGAIN_def E_GOT_APPLICATION_DATA_def)
  have "session_reach null_gnutls log_env ?s0 opened"
    by (rule reach_step [OF reach_start st]) simp
  from verification_dereferences_null [OF null_user_pointer o this] o st show ?thesis
    by (intro exI [of _ ?s0] exI [of _ opened]) (simp add: opened_def)
qed

end
