(* ===== verification/Session_Objects.thy ===== *)
theory Session_Objects
  imports Session_Context
begin

text \<open>
  \<^verbatim>\<open>CryptoSession\<close> objects and who points to them. The theory Crypto\_Session passes a session as a value; in the
  program three other parties hold its address: GnuTLS (the transport pointer, from which \<^verbatim>\<open>gnutls_pull\<close>,
  \<^verbatim>\<open>gnutls_pull_timeout\<close>, \<^verbatim>\<open>gnutls_push\<close> and \<^verbatim>\<open>gnutls_vec_push\<close> recover the object), the stream below (the function
  bound to its \<^verbatim>\<open>read\<close> signal), and whoever owns the object. Here the objects live in a store, and every
  callback goes to the object whose address was registered. As long as a session stays where it was
  constructed the two models agree; the defaulted move constructor of the class, which \<^verbatim>\<open>Tunnel\<close> uses, leaves both
  addresses behind.
\<close>

section \<open>The store\<close>

text \<open>What belongs to one object; the GnuTLS session and the stream below are shared by reference.\<close>

record session_object = stream_base +
  so_state :: cstate
  so_currentPacket :: "packet option"
  so_changed :: "cstate list"
  so_changed_slots :: "slot list"

text \<open>
  \<open>wd_session\<close> is the state of the GnuTLS session, \<open>None\<close> after \<^verbatim>\<open>gnutls_deinit\<close>; \<open>wd_transport\<close> its transport pointer;
  \<open>wd_reader\<close> the address bound in the function that is connected to the stream below, \<open>wd_connection\<close> the
  object that holds the connection, \<^verbatim>\<open>nextOnRead\<close>.
\<close>

record ('g, 'n) world =
  wd_objects :: "nat \<Rightarrow> session_object option"
  wd_next :: 'n
  wd_session :: "'g option"
  wd_transport :: nat
  wd_reader :: "nat option"
  wd_connection :: nat

definition load :: "('g, 'n) world \<Rightarrow> nat \<Rightarrow> ('g, 'n) session option" where
  "load w a =
     (case (wd_objects w a, wd_session w) of
        (Some ob, Some g) \<Rightarrow> Some \<lparr>st_slots = st_slots ob, st_raised = st_raised ob, cs_next = wd_next w, cs_state = so_state ob,
           cs_session = g, cs_currentPacket = so_currentPacket ob, cs_changed = so_changed ob, cs_changed_slots = so_changed_slots ob\<rparr>
      | _ \<Rightarrow> None)"

definition object_of :: "('g, 'n) session \<Rightarrow> session_object" where
  "object_of s = \<lparr>st_slots = st_slots s, st_raised = st_raised s, so_state = cs_state s, so_currentPacket = cs_currentPacket s,
     so_changed = cs_changed s, so_changed_slots = cs_changed_slots s\<rparr>"

definition store :: "('g, 'n) world \<Rightarrow> nat \<Rightarrow> ('g, 'n) session \<Rightarrow> ('g, 'n) world" where
  "store w a s = w\<lparr>wd_objects := (wd_objects w)(a \<mapsto> object_of s), wd_next := cs_next s, wd_session := Some (cs_session s)\<rparr>"

lemma load_store [simp]: "load (store w a s) a = Some s"
  by (simp add: load_def store_def object_of_def)

lemma store_store [simp]: "store (store w a s) a s' = store w a s'"
  by (simp add: store_def)

lemma store_load: "load w a = Some s \<Longrightarrow> store w a s = w"
  by (cases w) (auto simp: load_def store_def object_of_def fun_upd_idem split: option.splits)

lemma store_frame [simp]:
  "wd_transport (store w a s) = wd_transport w" "wd_reader (store w a s) = wd_reader w"
  "wd_connection (store w a s) = wd_connection w" "b \<noteq> a \<Longrightarrow> wd_objects (store w a s) b = wd_objects w b"
  "wd_objects (store w a s) a = Some (object_of s)" "wd_session (store w a s) = Some (cs_session s)"
  by (simp_all add: store_def)

lemma load_parts: "load w a = Some s \<Longrightarrow> wd_objects w a = Some (object_of s) \<and> wd_session w = Some (cs_session s) \<and> wd_next w = cs_next s"
  by (auto simp: load_def object_of_def split: option.splits)

section \<open>Library calls\<close>

text \<open>
  The static callbacks: the object is found through the transport pointer. A member function that runs on an
  address without an object is a use after free.
\<close>

definition at_object ::
  "('g, 'n) world \<Rightarrow> nat \<Rightarrow> (('g, 'n) session \<Rightarrow> 'v outcome \<times> ('g, 'n) session) \<Rightarrow> 'v outcome \<times> ('g, 'n) world" where
  "at_object w a f = (case load w a of None \<Rightarrow> (UB UseAfterFree, w) | Some s \<Rightarrow> (case f s of (r, s') \<Rightarrow> (r, store w a s')))"

definition gnutls_pull :: "('g, 'n) world \<Rightarrow> size_t \<Rightarrow> (int \<times> byte list) outcome \<times> ('g, 'n) world" where
  "gnutls_pull w n = at_object w (wd_transport w) (\<lambda>s. CryptoSession_pull s n)"

definition gnutls_pull_timeout :: "('g, 'n) world \<Rightarrow> u32 \<Rightarrow> int outcome \<times> ('g, 'n) world" where
  "gnutls_pull_timeout w ms = at_object w (wd_transport w) (\<lambda>s. (Ret (CryptoSession_pull_timeout s ms), s))"

definition gnutls_push :: "'n stream_env \<Rightarrow> ('g, 'n) world \<Rightarrow> byte list \<Rightarrow> int outcome \<times> ('g, 'n) world" where
  "gnutls_push E w d = at_object w (wd_transport w) (\<lambda>s. CryptoSession_push E s d)"

definition gnutls_vec_push :: "'n stream_env \<Rightarrow> ('g, 'n) world \<Rightarrow> byte list list \<Rightarrow> int outcome \<times> ('g, 'n) world" where
  "gnutls_vec_push E w ds = at_object w (wd_transport w) (\<lambda>s. CryptoSession_vec_push E s ds)"

text \<open>Sequencing in a world.\<close>

definition then_in :: "'v outcome \<times> 'w \<Rightarrow> ('v \<Rightarrow> 'w \<Rightarrow> 'u outcome \<times> 'w) \<Rightarrow> 'u outcome \<times> 'w" where
  "then_in x f = (case x of (Ret v, w) \<Rightarrow> f v w | (Throw e, w) \<Rightarrow> (Throw e, w) | (UB u, w) \<Rightarrow> (UB u, w))"

lemma then_in_simps [simp]:
  "then_in (Ret v, w) f = f v w" "then_in (Throw e, w) f = (Throw e, w)" "then_in (UB u, w) f = (UB u, w)"
  by (simp_all add: then_in_def)

primrec run_at :: "'r gcall \<Rightarrow> 'n stream_env \<Rightarrow> ('g, 'n) world \<Rightarrow> 'r outcome \<times> ('g, 'n) world" where
  "run_at (Done r) = (\<lambda>E w. (Ret r, w))"
| "run_at (Pull n k) = (\<lambda>E w. then_in (gnutls_pull w n) (\<lambda>v. run_at (k v) E))"
| "run_at (PullTimeout ms k) = (\<lambda>E w. then_in (gnutls_pull_timeout w ms) (\<lambda>v. run_at (k v) E))"
| "run_at (Push d k) = (\<lambda>E w. then_in (gnutls_push E w d) (\<lambda>v. run_at (k v) E))"
| "run_at (VecPush ds k) = (\<lambda>E w. then_in (gnutls_vec_push E w ds) (\<lambda>v. run_at (k v) E))"

text \<open>A function of the library on the session that the object at \<open>this\<close> has the handle of.\<close>

definition call_at ::
  "'n stream_env \<Rightarrow> ('g \<Rightarrow> ('v \<times> 'g) gcall) \<Rightarrow> nat \<Rightarrow> ('g, 'n) world \<Rightarrow> 'v outcome \<times> ('g, 'n) world" where
  "call_at E f this w =
     (case load w this of
        None \<Rightarrow> (UB UseAfterFree, w)
      | Some s \<Rightarrow> then_in (run_at (f (cs_session s)) E w) (\<lambda>(v, g) w'. (Ret v, w'\<lparr>wd_session := Some g\<rparr>)))"

text \<open>Callbacks that reach the calling object itself are those of the value model.\<close>

lemma run_at_this:
  "load w this = Some s \<Longrightarrow> wd_transport w = this \<Longrightarrow> run_at t E w = (case run_gcall t E s of (r, s') \<Rightarrow> (r, store w this s'))"
proof (induction t arbitrary: w s)
  case (Done r)
  then show ?case by (simp add: store_load)
next
  case (Pull n k)
  obtain x s1 where "CryptoSession_pull s n = (x, s1)" by fastforce
  with Pull show ?case
    by (cases x) (auto simp: gnutls_pull_def at_object_def split: prod.splits)
next
  case (PullTimeout ms k)
  then show ?case by (auto simp: gnutls_pull_timeout_def at_object_def store_load split: prod.splits)
next
  case (Push d k)
  obtain x s1 where "CryptoSession_push E s d = (x, s1)" by fastforce
  with Push show ?case
    by (cases x) (auto simp: gnutls_push_def at_object_def split: prod.splits)
next
  case (VecPush ds k)
  obtain x s1 where "CryptoSession_vec_push E s ds = (x, s1)" by fastforce
  with VecPush show ?case
    by (cases x) (auto simp: gnutls_vec_push_def at_object_def split: prod.splits)
qed

lemma call_at_this:
  assumes "load w this = Some s" and "wd_transport w = this"
  shows "call_at E f this w = (case call_gnutls E (f (cs_session s)) s of (r, s') \<Rightarrow> (r, store w this s'))"
proof -
  obtain x s1 where x: "run_gcall (f (cs_session s)) E s = (x, s1)" by fastforce
  have "(store w this s1)\<lparr>wd_session := Some g\<rparr> = store w this (s1\<lparr>cs_session := g\<rparr>)" for g
    by (simp add: store_def object_of_def)
  with x assms show ?thesis
    by (cases x) (auto simp: call_at_def call_gnutls_def run_at_this [OF assms] split: prod.splits)
qed

section \<open>Operations on an object\<close>

text \<open>Access to the members of the object at \<open>this\<close> alone.\<close>

definition member :: "nat \<Rightarrow> (session_object \<Rightarrow> session_object) \<Rightarrow> ('g, 'n) world \<Rightarrow> unit outcome \<times> ('g, 'n) world" where
  "member this f w =
     (case wd_objects w this of
        None \<Rightarrow> (UB UseAfterFree, w)
      | Some ob \<Rightarrow> (Ret (), w\<lparr>wd_objects := (wd_objects w)(this \<mapsto> f ob)\<rparr>))"

definition state_at :: "nat \<Rightarrow> ('g, 'n) world \<Rightarrow> cstate outcome \<times> ('g, 'n) world" where
  "state_at this w = (case wd_objects w this of None \<Rightarrow> (UB UseAfterFree, w) | Some ob \<Rightarrow> (Ret (so_state ob), w))"

definition setState_at :: "cstate \<Rightarrow> nat \<Rightarrow> ('g, 'n) world \<Rightarrow> unit outcome \<times> ('g, 'n) world" where
  "setState_at st this = member this (\<lambda>ob. ob\<lparr>so_state := st, so_changed := so_changed ob @ [so_state ob]\<rparr>)"

definition fail_at :: "'g gnutls \<Rightarrow> int \<Rightarrow> nat \<Rightarrow> ('g, 'n) world \<Rightarrow> unit outcome \<times> ('g, 'n) world" where
  "fail_at G ret this w =
     then_in (member this (\<lambda>ob. ob\<lparr>so_state := Aborted\<rparr>) w)
       (\<lambda>_ w. case wd_session w of
          None \<Rightarrow> (UB UseAfterFree, w)
        | Some g \<Rightarrow> (Throw (CryptoException ret (g_alert_get G g) (g_strerror G ret)), w))"

definition propagate_at :: "packet \<Rightarrow> nat \<Rightarrow> ('g, 'n) world \<Rightarrow> unit outcome \<times> ('g, 'n) world" where
  "propagate_at p this = member this (\<lambda>ob. ob\<lparr>st_raised := st_raised ob @ [p]\<rparr>)"

definition then_run :: "'v outcome \<times> 'w \<Rightarrow> ('v \<Rightarrow> 'w \<Rightarrow> ('u outcome \<times> 'w) option) \<Rightarrow> ('u outcome \<times> 'w) option" where
  "then_run x f = (case x of (Ret v, w) \<Rightarrow> f v w | (Throw e, w) \<Rightarrow> Some (Throw e, w) | (UB u, w) \<Rightarrow> Some (UB u, w))"

lemma then_run_simps [simp]:
  "then_run (Ret v, w) f = f v w" "then_run (Throw e, w) f = Some (Throw e, w)" "then_run (UB u, w) f = Some (UB u, w)"
  by (simp_all add: then_run_def)

function handleHandshake_at ::
  "nat \<Rightarrow> 'g gnutls \<Rightarrow> 'n stream_env \<Rightarrow> nat \<Rightarrow> ('g, 'n) world \<Rightarrow> (unit outcome \<times> ('g, 'n) world) option"
and handleData_at ::
  "nat \<Rightarrow> 'g gnutls \<Rightarrow> 'n stream_env \<Rightarrow> nat \<Rightarrow> ('g, 'n) world \<Rightarrow> (unit outcome \<times> ('g, 'n) world) option" where
  "handleHandshake_at 0 G E this w = None"
| "handleHandshake_at (Suc fuel) G E this w =
     then_run (call_at E (g_handshake G) this w) (\<lambda>ret w.
       if ret = E_GOT_APPLICATION_DATA then handleData_at fuel G E this w
       else if ret = E_AGAIN then Some (Ret (), w)
       else if ret = E_SUCCESS then Some (setState_at Open this w)
       else Some (fail_at G ret this w))"
| "handleData_at fuel G E this w =
     then_run (call_at E (\<lambda>g. g_record_recv G g (of_nat bufferSize)) this w) (\<lambda>(ret, data) w.
       if ret < 0 then
         if ret = E_REHANDSHAKE then then_run (setState_at Renegotiating this w) (\<lambda>_. handleHandshake_at fuel G E this)
         else Some (fail_at G ret this w)
       else if ret = 0 then
         then_run (state_at this w) (\<lambda>st w.
           then_run (if st \<noteq> Closed then call_at E (g_bye G) this w else (Ret 0, w)) (\<lambda>_ w.
             Some (setState_at Closed this w)))
       else if nat ret > bufferSize then Some (UB OutOfBounds, w)
       else
         then_run (propagate_at (delivered E ret data) this w) (\<lambda>_ w. Some (mem_result {} (handleData_mem 1 2 0), w)))"
  by pat_completeness auto
termination
  by (relation "measure (\<lambda>x. case x of Inl (n, _) \<Rightarrow> 2 * n | Inr (n, _) \<Rightarrow> Suc (2 * n))") auto

declare handleHandshake_at.simps(2) [simp del] handleData_at.simps [simp del]

definition handlePacket_at ::
  "nat \<Rightarrow> 'g gnutls \<Rightarrow> 'n stream_env \<Rightarrow> nat \<Rightarrow> ('g, 'n) world \<Rightarrow> (unit outcome \<times> ('g, 'n) world) option" where
  "handlePacket_at fuel G E this w =
     then_run (state_at this w) (\<lambda>st w.
       if st = Opening \<or> st = Renegotiating then handleHandshake_at fuel G E this w
       else if st = Open then handleData_at fuel G E this w
       else Some (Throw (InvalidOperation ''Session not ready''), w))"

text \<open>The public operations and \<^verbatim>\<open>readPacket\<close> on the object at \<open>this\<close>.\<close>

fun step_at ::
  "nat \<Rightarrow> 'g gnutls \<Rightarrow> 'n stream_env \<Rightarrow> session_op \<Rightarrow> nat \<Rightarrow> ('g, 'n) world \<Rightarrow> (unit outcome \<times> ('g, 'n) world) option" where
  "step_at fuel G E OpOpen this w =
     then_run (state_at this w) (\<lambda>st w.
       if st \<noteq> Invalid then Some (Throw (InvalidOperation ''Session not ready''), w)
       else then_run (setState_at Opening this w) (\<lambda>_. handleHandshake_at fuel G E this))"
| "step_at fuel G E OpRenegotiate this w =
     then_run (state_at this w) (\<lambda>st w.
       if st \<noteq> Open then Some (Throw (InvalidOperation ''Session not ready''), w)
       else then_run (call_at E (g_rehandshake G) this w) (\<lambda>_ w. Some (setState_at Renegotiating this w)))"
| "step_at fuel G E OpClose this w =
     then_run (state_at this w) (\<lambda>st w.
       if st = Invalid \<or> st = Closed \<or> st = Aborted then Some (Throw (InvalidOperation ''Session not ready''), w)
       else then_run (call_at E (g_bye G) this w) (\<lambda>_ w. Some (setState_at Closed this w)))"
| "step_at fuel G E (OpRead p) this w =
     then_run (member this (\<lambda>ob. ob\<lparr>so_currentPacket := Some p\<rparr>) w) (\<lambda>_. handlePacket_at fuel G E this)"
| "step_at fuel G E (OpWrite p) this w =
     then_run (state_at this w) (\<lambda>st w.
       if st \<noteq> Open then Some (Throw (InvalidOperation ''Session not ready''), w)
       else then_run (call_at E (\<lambda>g. g_record_send G g (view p)) this w) (\<lambda>result w.
         if result = E_AGAIN then Some (Ret (), w)
         else if result < 0 then Some (Throw (CryptoException result 0 (g_strerror G result)), w)
         else Some (Ret (), w)))"

section \<open>A session that stays where it is\<close>

lemma member_this: "load w this = Some s \<Longrightarrow> object_of s' = f (object_of s) \<Longrightarrow> cs_next s' = cs_next s \<Longrightarrow> cs_session s' = cs_session s
    \<Longrightarrow> member this f w = (Ret (), store w this s')"
  using load_parts [of w this s] by (cases w) (simp add: member_def store_def)

lemma state_this: "load w this = Some s \<Longrightarrow> state_at this w = (Ret (cs_state s), w)"
  using load_parts [of w this s] by (simp add: state_at_def object_of_def)

lemma setState_this: "load w this = Some s \<Longrightarrow> setState_at st this w = (Ret (), store w this (CryptoSession_setState st s))"
  unfolding setState_at_def by (rule member_this) (simp_all add: object_of_def CryptoSession_setState_def Let_def)

lemma fail_this:
  assumes "load w this = Some s"
  shows "fail_at G ret this w = (case CryptoSession_fail G ret s of (r, s') \<Rightarrow> (r, store w this s'))"
proof -
  have "member this (\<lambda>ob. ob\<lparr>so_state := Aborted\<rparr>) w = (Ret (), store w this (s\<lparr>cs_state := Aborted\<rparr>))"
    by (rule member_this [OF assms]) (simp_all add: object_of_def)
  then show ?thesis by (simp add: fail_at_def CryptoSession_fail_def)
qed

lemma propagate_this: "load w this = Some s \<Longrightarrow> propagate_at p this w = (Ret (), store w this (CryptoSession_propagate s p))"
  unfolding propagate_at_def by (rule member_this) (simp_all add: object_of_def CryptoSession_propagate_def)

definition stored :: "('g, 'n) world \<Rightarrow> nat \<Rightarrow> ('v outcome \<times> ('g, 'n) session) option \<Rightarrow> ('v outcome \<times> ('g, 'n) world) option" where
  "stored w this = map_option (\<lambda>(r, s). (r, store w this s))"

lemma handlers_this:
  "load w this = Some s \<Longrightarrow> wd_transport w = this \<Longrightarrow> handleHandshake_at fuel G E this w = stored w this (handleHandshake fuel G E s)"
  "load w this = Some s \<Longrightarrow> wd_transport w = this \<Longrightarrow> handleData_at fuel G E this w = stored w this (handleData fuel G E s)"
proof (induction fuel G E s and fuel G E s arbitrary: w and w rule: handleHandshake_handleData.induct)
  case (1 G E s)
  then show ?case by (simp add: stored_def)
next
  case (2 fuel G E s)
  obtain x s1 where c: "call_gnutls E (g_handshake G (cs_session s)) s = (x, s1)" by fastforce
  show ?case
  proof (cases x)
    case (Ret ret)
    have "ret = E_GOT_APPLICATION_DATA \<Longrightarrow> handleData_at fuel G E this (store w this s1) = stored w this (handleData fuel G E s1)"
      using 2(1) [OF c [symmetric, unfolded Ret] refl, of "store w this s1"] 2(3) by (simp add: stored_def)
    with c Ret show ?thesis
      by (auto simp: handleHandshake_at.simps handleHandshake.simps call_at_this [OF 2(2,3)] stored_def setState_this fail_this
          CryptoSession_fail_def)
  qed (use c in \<open>auto simp: handleHandshake_at.simps handleHandshake.simps call_at_this [OF 2(2,3)] stored_def\<close>)
next
  case (3 fuel G E s)
  obtain x s1 where c: "call_gnutls E (g_record_recv G (cs_session s) (of_nat bufferSize)) s = (x, s1)" by fastforce
  note call = call_at_this [OF 3(2,3), of E "\<lambda>g. g_record_recv G g (of_nat bufferSize)"]
  show ?case
  proof (cases x)
    case (Ret v)
    obtain ret d where v: "v = (ret, d)" by fastforce
    have again: "handleHandshake_at fuel G E this (store w this (CryptoSession_setState Renegotiating s1))
        = stored w this (handleHandshake fuel G E (CryptoSession_setState Renegotiating s1))" if "ret < 0" "ret = E_REHANDSHAKE"
      using 3(1) [OF c [symmetric, unfolded Ret v] refl refl that, of "store w this (CryptoSession_setState Renegotiating s1)"] 3(3)
      by (simp add: stored_def)
    have bye: "call_at E (g_bye G) this (store w this s1)
        = (case call_gnutls E (g_bye G (cs_session s1)) s1 of (r, s') \<Rightarrow> (r, store w this s'))"
      using call_at_this [of "store w this s1" this s1 E "g_bye G"] 3(3) by simp
    obtain y s2 where b: "call_gnutls E (g_bye G (cs_session s1)) s1 = (y, s2)" by fastforce
    consider "ret < 0" | "ret = 0" | "0 < ret" by linarith
    then show ?thesis
    proof cases
      case 1
      with c Ret v again show ?thesis
        by (auto simp: handleData_at.simps handleData.simps call stored_def setState_this fail_this CryptoSession_fail_def)
    next
      case 2
      with c Ret v bye b show ?thesis
        by (cases y) (auto simp: handleData_at.simps handleData.simps call stored_def setState_this state_this)
    next
      case 3
      with c Ret v show ?thesis
        by (auto simp: handleData_at.simps handleData.simps call stored_def propagate_this delivered_def Let_def)
    qed
  qed (use c in \<open>auto simp: handleData_at.simps handleData.simps call stored_def\<close>)
qed

lemma step_this:
  assumes "load w this = Some s" and "wd_transport w = this"
  shows "step_at fuel G E op this w = stored w this (session_step fuel G E op s)"
proof (cases op)
  case OpOpen
  have "handleHandshake_at fuel G E this (store w this (CryptoSession_setState Opening s))
      = stored w this (handleHandshake fuel G E (CryptoSession_setState Opening s))"
    using handlers_this(1) [of "store w this (CryptoSession_setState Opening s)" this] assms(2) by (simp add: stored_def)
  with OpOpen assms show ?thesis
    by (simp add: state_this setState_this CryptoSession_open_def stored_def store_load)
next
  case OpRenegotiate
  obtain x s1 where "call_gnutls E (g_rehandshake G (cs_session s)) s = (x, s1)" by fastforce
  with OpRenegotiate assms show ?thesis
    by (cases x) (simp_all add: state_this call_at_this setState_this CryptoSession_renegotiate_def stored_def store_load)
next
  case OpClose
  obtain x s1 where "call_gnutls E (g_bye G (cs_session s)) s = (x, s1)" by fastforce
  with OpClose assms show ?thesis
    by (cases x) (auto simp: state_this call_at_this setState_this CryptoSession_close_def stored_def store_load)
next
  case (OpRead p)
  let ?s = "s\<lparr>cs_currentPacket := Some p\<rparr>"
  have "member this (\<lambda>ob. ob\<lparr>so_currentPacket := Some p\<rparr>) w = (Ret (), store w this ?s)"
    by (rule member_this [OF assms(1)]) (simp_all add: object_of_def)
  with OpRead assms(2) handlers_this [of "store w this ?s" this ?s] show ?thesis
    by (simp add: handlePacket_at_def CryptoSession_readPacket_def handlePacket_def state_this stored_def)
next
  case (OpWrite p)
  obtain x s1 where "call_gnutls E (g_record_send G (cs_session s) (view p)) s = (x, s1)" by fastforce
  with OpWrite assms show ?thesis
    by (cases x) (auto simp: state_this call_at_this CryptoSession_write_def stored_def store_load)
qed

section \<open>Construction, moving, destruction\<close>

text \<open>The constructor at address \<open>a\<close> registers this address with GnuTLS and with the stream below.\<close>

definition construct_at :: "'g gnutls \<Rightarrow> ('n \<Rightarrow> 'n) \<Rightarrow> 'g option \<Rightarrow> 'n \<Rightarrow> nat \<Rightarrow> ('g, 'n) world outcome" where
  "construct_at G connectRead h nx a =
     map_outcome_val (\<lambda>s. \<lparr>wd_objects = [a \<mapsto> object_of s], wd_next = cs_next s, wd_session = Some (cs_session s),
         wd_transport = a, wd_reader = Some a, wd_connection = a\<rparr>)
       (CryptoSession_new G connectRead h nx)"

text \<open>The stream below raises \<^verbatim>\<open>read\<close>: the bound function runs, whatever has become of its object.\<close>

definition deliver :: "nat \<Rightarrow> 'g gnutls \<Rightarrow> 'n stream_env \<Rightarrow> packet \<Rightarrow> ('g, 'n) world \<Rightarrow> (unit outcome \<times> ('g, 'n) world) option" where
  "deliver fuel G E p w = (case wd_reader w of None \<Rightarrow> Some (Ret (), w) | Some a \<Rightarrow> step_at fuel G E (OpRead p) a w)"

text \<open>
  The defaulted move constructor from \<open>a\<close> to \<open>b\<close>: pointers, references and the state are copied, signals, packet and
  connection are moved. Neither GnuTLS nor the bound function is told.
\<close>

definition move_at :: "nat \<Rightarrow> nat \<Rightarrow> ('g, 'n) world \<Rightarrow> unit outcome \<times> ('g, 'n) world" where
  "move_at a b w =
     (case wd_objects w a of
        None \<Rightarrow> (UB UseAfterFree, w)
      | Some ob \<Rightarrow> (Ret (), w\<lparr>wd_objects := (wd_objects w)(a \<mapsto> ob\<lparr>st_slots := [], so_changed_slots := [], so_currentPacket := None\<rparr>, b \<mapsto> ob),
            wd_connection := (if wd_connection w = a then b else wd_connection w)\<rparr>))"

text \<open>The destructor: \<^verbatim>\<open>gnutls_deinit\<close>, then the members, of which the connection disconnects.\<close>

definition destroy_at :: "nat \<Rightarrow> ('g, 'n) world \<Rightarrow> unit outcome \<times> ('g, 'n) world" where
  "destroy_at a w =
     (case (wd_objects w a, wd_session w) of
        (None, _) \<Rightarrow> (UB UseAfterFree, w)
      | (Some ob, None) \<Rightarrow> (UB DoubleFree, w)
      | (Some ob, Some g) \<Rightarrow> (Ret (), w\<lparr>wd_objects := (wd_objects w)(a := None), wd_session := None,
            wd_reader := (if wd_connection w = a then None else wd_reader w)\<rparr>))"

text \<open>Both models of the move constructor agree.\<close>

lemma move_at_values:
  "load w a = Some s \<Longrightarrow> b \<noteq> a \<Longrightarrow> move_at a b w = (r, w') \<Longrightarrow>
   r = Ret () \<and> load w' b = Some (fst (CryptoSession_move s)) \<and> load w' a = Some (snd (CryptoSession_move s))"
  by (auto simp: move_at_def load_def CryptoSession_move_def split: option.splits)

text \<open>Programs that leave the session at \<open>a\<close>: they call its operations, and packets arrive from below.\<close>

inductive world_reach :: "'g gnutls \<Rightarrow> 'n stream_env \<Rightarrow> nat \<Rightarrow> ('g, 'n) world \<Rightarrow> ('g, 'n) world \<Rightarrow> bool"
  for G E a w0 where
  world_start: "world_reach G E a w0 w0"
| world_operation: "world_reach G E a w0 w \<Longrightarrow> step_at fuel G E op a w = Some (r, w') \<Longrightarrow> (\<And>u. r \<noteq> UB u) \<Longrightarrow> world_reach G E a w0 w'"
| world_packet: "world_reach G E a w0 w \<Longrightarrow> deliver fuel G E p w = Some (r, w') \<Longrightarrow> (\<And>u. r \<noteq> UB u) \<Longrightarrow> world_reach G E a w0 w'"

definition in_place :: "'g gnutls \<Rightarrow> 'n stream_env \<Rightarrow> ('g, 'n) session \<Rightarrow> nat \<Rightarrow> ('g, 'n) world \<Rightarrow> bool" where
  "in_place G E s0 a w \<longleftrightarrow> wd_transport w = a \<and> wd_reader w = Some a \<and> wd_connection w = a
     \<and> (\<exists>s. load w a = Some s \<and> session_reach G E s0 s)"

lemma step_in_place:
  assumes "in_place G E s0 a w" and "step_at fuel G E op a w = Some (r, w')" and "\<And>u. r \<noteq> UB u"
  shows "in_place G E s0 a w'"
proof -
  obtain s where s: "load w a = Some s" "session_reach G E s0 s" and t: "wd_transport w = a"
    using assms(1) by (auto simp: in_place_def)
  from step_this [OF s(1) t] assms(2) obtain s' where s': "session_step fuel G E op s = Some (r, s')" "w' = store w a s'"
    by (auto simp: stored_def)
  with assms(1) reach_step [OF s(2) s'(1) assms(3)] show ?thesis by (simp add: in_place_def)
qed

lemma world_in_place:
  assumes "construct_at G connectRead h nx a = Ret w0" and "world_reach G E a w0 w"
  shows "\<exists>s0. CryptoSession_new G connectRead h nx = Ret s0 \<and> in_place G E s0 a w"
proof -
  obtain s0 where s0: "CryptoSession_new G connectRead h nx = Ret s0"
    and w0: "w0 = \<lparr>wd_objects = [a \<mapsto> object_of s0], wd_next = cs_next s0, wd_session = Some (cs_session s0),
         wd_transport = a, wd_reader = Some a, wd_connection = a\<rparr>"
    using assms(1) by (cases "CryptoSession_new G connectRead h nx") (auto simp: construct_at_def)
  have "in_place G E s0 a w"
    using assms(2)
  proof (induction rule: world_reach.induct)
    case world_start
    have "load w0 a = Some s0" by (simp add: w0 load_def object_of_def)
    with reach_start show ?case by (auto simp: in_place_def w0)
  next
    case (world_operation w fuel op r w')
    then show ?case by (blast intro: step_in_place)
  next
    case (world_packet w fuel p r w')
    then show ?case using step_in_place [of G E s0 a w fuel "OpRead p" r w'] by (simp add: deliver_def in_place_def)
  qed
  with s0 show ?thesis by blast
qed

text \<open>
  C10. A session that stays where it was constructed behaves as the value model says, although GnuTLS and
  the stream below reach it through its address: in every world that a program reaches by calling its
  operations while packets arrive, the object at the address is a session that the value model reaches, each
  operation does to the store what the value model does to the session, and a packet from below is a
  \<^verbatim>\<open>readPacket\<close> of this session.
\<close>

theorem session_in_place:
  assumes "construct_at G connectRead h nx a = Ret w0" and "world_reach G E a w0 w"
  shows "\<exists>s0 s. CryptoSession_new G connectRead h nx = Ret s0 \<and> load w a = Some s \<and> session_reach G E s0 s
    \<and> step_at fuel G E op a w = map_option (\<lambda>(r, s'). (r, store w a s')) (session_step fuel G E op s)
    \<and> deliver fuel G E p w = map_option (\<lambda>(r, s'). (r, store w a s')) (session_step fuel G E (OpRead p) s)"
proof -
  obtain s0 s where "CryptoSession_new G connectRead h nx = Ret s0" "load w a = Some s" "session_reach G E s0 s"
    "wd_transport w = a" "wd_reader w = Some a"
    using world_in_place [OF assms] by (auto simp: in_place_def)
  with step_this [of w a s fuel G E op] step_this [of w a s fuel G E "OpRead p"] show ?thesis
    by (auto simp: stored_def deliver_def simp del: step_at.simps session_step.simps)
qed

text \<open>A session of the library without cryptography at address 1.\<close>

definition demo_world :: "(bool, packet list) world" where
  "demo_world = \<lparr>wd_objects = [1 \<mapsto> object_of (fresh_over [] :: (bool, packet list) session)], wd_next = [], wd_session = Some False,
     wd_transport = 1, wd_reader = Some 1, wd_connection = 1\<rparr>"

lemma demo_construct: "construct_at null_gnutls (\<lambda>n. n) (Some False) [] 1 = Ret demo_world"
  by (simp add: construct_at_def new_over demo_world_def fresh_over_def opened_over_def)

theorem session_in_place_witness:
  "\<exists>s. load demo_world 1 = Some s
     \<and> step_at 1 null_gnutls log_env OpOpen 1 demo_world
       = map_option (\<lambda>(r, s'). (r, store demo_world 1 s')) (session_step 1 null_gnutls log_env OpOpen s)"
  using session_in_place [OF demo_construct world_start, where E = log_env and fuel = 1 and op = OpOpen and p = "Packet_new 1 [7] 0 1"]
  by (auto simp del: step_at.simps session_step.simps)

section \<open>A session that was moved\<close>




















text \<open>
  C19. A session that is moved is lost with the object it was moved from: once the old object is destroyed,
  as happens at the end of the expression that passes the result of \<^verbatim>\<open>openSession\<close> to the constructor of \<^verbatim>\<open>Tunnel\<close>,
  the next packet from below is handled by an object that no longer exists, every operation of the new object
  that is not refused uses a GnuTLS session that was released, and its destructor releases it again.
\<close>

theorem moved_session_dead:
  assumes "construct_at G connectRead h nx a = Ret w0" and "world_reach G E a w0 w" and "wd_objects w b = None"
    and "move_at a b w = (Ret (), w1)" and "destroy_at a w1 = (r, w2)"
  shows "r = Ret () \<and> deliver fuel G E p w2 = Some (UB UseAfterFree, w2)
    \<and> (\<exists>ob. wd_objects w2 b = Some ob
        \<and> (ready op (so_state ob) \<longrightarrow> (\<exists>w3. step_at (Suc fuel) G E op b w2 = Some (UB UseAfterFree, w3))))
    \<and> destroy_at b w2 = (UB DoubleFree, w2)"
proof -
  obtain s where w: "wd_transport w = a" "wd_reader w = Some a" "wd_connection w = a" "load w a = Some s"
    using world_in_place [OF assms(1,2)] by (auto simp: in_place_def)
  have ab: "a \<noteq> b" using load_parts [OF w(4)] assms(3) by auto
  have parts: "wd_objects w a = Some (object_of s)" "wd_session w = Some (cs_session s)" using load_parts [OF w(4)] by auto
  have w2: "wd_objects w2 a = None" "wd_objects w2 b = Some (object_of s)" "wd_session w2 = None" "wd_reader w2 = Some a" "r = Ret ()"
    using assms(4,5) ab parts w(2,3) by (auto simp: move_at_def destroy_at_def)
  have dead: "load v this = None" if "wd_session v = None" for v :: "('a, 'b) world" and this
    using that by (simp add: load_def split: option.splits)
  have "deliver fuel G E p w2 = Some (UB UseAfterFree, w2)"
    by (simp add: deliver_def w2 member_def)
  moreover have "\<exists>w3. step_at (Suc fuel) G E op b w2 = Some (UB UseAfterFree, w3)" if "ready op (so_state (object_of s))"
    using that by (cases op) (auto simp: state_at_def member_def setState_at_def call_at_def handlePacket_at_def w2 dead
        handleHandshake_at.simps handleData_at.simps)
  moreover have "destroy_at b w2 = (UB DoubleFree, w2)" by (simp add: destroy_at_def w2)
  ultimately show ?thesis using w2 by simp
qed

theorem moved_session_dead_witness:
  "\<exists>w1 w2 w3. move_at 1 2 demo_world = (Ret (), w1) \<and> destroy_at 1 w1 = (Ret (), w2)
     \<and> deliver 1 null_gnutls log_env (Packet_new 3 [7] 0 1) w2 = Some (UB UseAfterFree, w2)
     \<and> step_at 2 null_gnutls log_env OpOpen 2 w2 = Some (UB UseAfterFree, w3) \<and> destroy_at 2 w2 = (UB DoubleFree, w2)"
proof -
  obtain w1 where w1: "move_at 1 2 demo_world = (Ret (), w1)"
    by (simp add: move_at_def demo_world_def)
  obtain r w2 where w2: "destroy_at 1 w1 = (r, w2)" by fastforce
  have "wd_objects demo_world 2 = None" by (simp add: demo_world_def)
  note dead = moved_session_dead [OF demo_construct world_start this w1 w2, where E = log_env and fuel = 1 and op = OpOpen and p = "Packet_new 3 [7] 0 1"]
  have "wd_objects w2 2 = Some (object_of (fresh_over [] :: (bool, packet list) session))"
    using w1 w2 by (auto simp: move_at_def destroy_at_def demo_world_def split: option.splits)
  then have "\<exists>w3. step_at 2 null_gnutls log_env OpOpen 2 w2 = Some (UB UseAfterFree, w3)"
    using dead by (simp add: object_of_def fresh_over_def numeral_2_eq_2 del: step_at.simps)
  with dead w1 w2 show ?thesis by auto
qed

end
