(* ===== verification/Udp.thy ===== *)
theory Udp
  imports Addresses Packet_Stream State_Notifier Ownership
begin

text \<open>
  Links and sockets (\<^verbatim>\<open>net/network.hpp\<close>, \<^verbatim>\<open>net/Link.cpp\<close>, \<^verbatim>\<open>net/Socket.cpp\<close>, \<^verbatim>\<open>net/network-udp.hpp\<close>,
  \<^verbatim>\<open>net/UdpLink.cpp\<close>, \<^verbatim>\<open>net/UdpSocket.cpp\<close>). System calls are arguments; the set of open descriptors of the
  process is part of the state of the operations that open or close one.
\<close>

section \<open>Link\<close>

datatype link_state = LinkInvalid | LinkOpening | LinkOpen | LinkClosed

record udp_link = stream_base +
  ul_state :: link_state
  ul_changed :: "link_state list"
  ul_changed_slots :: "slot list"
  ul_peer :: socket_address
  ul_fd :: int

definition Link_setState :: "link_state \<Rightarrow> udp_link \<Rightarrow> udp_link" where
  "Link_setState st l = (let oldState = ul_state l in l\<lparr>ul_state := st, ul_changed := ul_changed l @ [oldState]\<rparr>)"

definition Link_connectStateChanged :: "udp_link \<Rightarrow> slot \<Rightarrow> udp_link" where
  "Link_connectStateChanged l cb = l\<lparr>ul_changed_slots := ul_changed_slots l @ [cb]\<rparr>"

definition Link_state :: "udp_link \<Rightarrow> link_state" where
  "Link_state l = ul_state l"

interpretation link_notifier: state_notifier Link_state ul_changed Link_setState
  by unfold_locales (simp_all add: Link_state_def Link_setState_def Let_def)

section \<open>UdpLink\<close>

definition UdpLink_new :: "int \<Rightarrow> socket_address \<Rightarrow> udp_link" where
  "UdpLink_new fd peer =
     \<lparr>st_slots = [], st_raised = [], ul_state = LinkOpen, ul_changed = [], ul_changed_slots = [], ul_peer = peer, ul_fd = fd\<rparr>"

definition UdpLink_propagate :: "udp_link \<Rightarrow> packet \<Rightarrow> udp_link" where
  "UdpLink_propagate l p = (if ul_state l = LinkClosed then l else l\<lparr>st_raised := st_raised l @ [p]\<rparr>)"

definition EINTR :: int where "EINTR = 4"
definition EBADF :: int where "EBADF = 9"
definition EAGAIN :: int where "EAGAIN = 11"
definition ENETDOWN :: int where "ENETDOWN = 100"
definition ENETUNREACH :: int where "ENETUNREACH = 101"
definition EHOSTUNREACH :: int where "EHOSTUNREACH = 113"

lemmas errno_defs = EINTR_def EBADF_def EAGAIN_def ENETDOWN_def ENETUNREACH_def EHOSTUNREACH_def

text \<open>
  One call of \<^verbatim>\<open>sendto\<close>: descriptor, bytes and native address. \<open>sendto c i\<close> is what the \<open>i\<close>-th call with these
  arguments for one packet answers, result and \<^verbatim>\<open>errno\<close>.
\<close>

type_synonym datagram = "int \<times> byte list \<times> byte list"
type_synonym sendto = "int \<Rightarrow> byte list \<Rightarrow> byte list \<Rightarrow> nat \<Rightarrow> int \<times> int"

text \<open>
  \<^verbatim>\<open>write\<close> with its jump back after an interrupted call (\<^verbatim>\<open>EWOULDBLOCK\<close> is \<^verbatim>\<open>EAGAIN\<close>): what it returns, and the
  calls of \<^verbatim>\<open>sendto\<close> that it made, in order, each with the arguments the system got; \<open>None\<close> is a loop that
  never ends. The link is not changed.
\<close>

partial_function (option) UdpLink_send ::
  "(datagram \<Rightarrow> nat \<Rightarrow> int \<times> int) \<Rightarrow> (int \<Rightarrow> string) \<Rightarrow> datagram \<Rightarrow> nat \<Rightarrow> (bool outcome \<times> datagram list) option" where
  "UdpLink_send send strerror call i =
     (case send call i of (err, errno) \<Rightarrow>
        if err \<ge> 0 then Some (Ret True, [call])
        else if errno = EAGAIN then Some (Ret False, [call])
        else if errno = EINTR then Option.bind (UdpLink_send send strerror call (Suc i)) (\<lambda>(r, calls). Some (r, call # calls))
        else if errno = EHOSTUNREACH \<or> errno = ENETUNREACH \<or> errno = ENETDOWN then Some (Ret False, [call])
        else Some (Throw (SocketException errno (strerror errno)), [call]))"

definition UdpLink_write ::
  "sendto \<Rightarrow> (int \<Rightarrow> string) \<Rightarrow> udp_link \<Rightarrow> packet \<Rightarrow> (bool outcome \<times> datagram list) option" where
  "UdpLink_write sendto strerror l p =
     UdpLink_send (\<lambda>(fd, data, addr). sendto fd data addr) strerror
       (ul_fd l, view p, take (sa_native_len (ul_peer l)) (sa_addr (ul_peer l))) 0"

definition UdpLink_close :: "udp_link \<Rightarrow> udp_link" where
  "UdpLink_close l = Link_setState LinkClosed l"

section \<open>UdpSocket\<close>

text \<open>
  \<open>us_watching\<close> is the descriptor the event watcher is started on. \<open>us_destroyed\<close> records the links whose
  destructor ran. The map of peers is ordered by \<^verbatim>\<open>operator<\<close> of the addresses; an operation on keys for
  which this comparison is not a strict weak order is undefined.
\<close>

record udp_socket =
  us_accept_slots :: "slot list"
  us_fd :: int
  us_watching :: "int option"
  us_peers :: "(socket_address \<times> udp_link) list"
  us_address :: socket_address
  us_destroyed :: "udp_link list"

type_synonym descriptors = "int set"

definition Socket_listen :: "udp_socket \<Rightarrow> slot \<Rightarrow> udp_socket" where
  "Socket_listen s cb = s\<lparr>us_accept_slots := us_accept_slots s @ [cb]\<rparr>"

definition compare_ok :: "('k \<Rightarrow> 'k \<Rightarrow> bool) \<Rightarrow> 'k list \<Rightarrow> bool" where
  "compare_ok lt ks \<longleftrightarrow>
     (\<forall>x\<in>set ks. \<not> lt x x) \<and> (\<forall>x\<in>set ks. \<forall>y\<in>set ks. lt x y \<longrightarrow> \<not> lt y x) \<and>
     (\<forall>x\<in>set ks. \<forall>y\<in>set ks. \<forall>z\<in>set ks. lt x y \<longrightarrow> lt y z \<longrightarrow> lt x z) \<and>
     (\<forall>x\<in>set ks. \<forall>y\<in>set ks. \<forall>z\<in>set ks. \<not> lt x y \<and> \<not> lt y x \<and> \<not> lt y z \<and> \<not> lt z y \<longrightarrow> \<not> lt x z \<and> \<not> lt z x)"

definition peer_keys_ok :: "udp_socket \<Rightarrow> socket_address \<Rightarrow> bool" where
  "peer_keys_ok s k = compare_ok sa_less (k # map fst (us_peers s))"

definition UdpSocket_new :: "int \<Rightarrow> socket_address \<Rightarrow> udp_socket" where
  "UdpSocket_new fd address =
     \<lparr>us_accept_slots = [], us_fd = fd, us_watching = Some fd, us_peers = [], us_address = address, us_destroyed = []\<rparr>"

lemma length_map_erase_find: "map_find lt k xs = Some v \<Longrightarrow> length (map_erase lt k xs) < length xs"
  by (induction lt k xs rule: map_find.induct) (auto split: if_splits)

text \<open>
  \<^verbatim>\<open>removeLink\<close>: erasing an entry destroys its link, whose destructor calls \<^verbatim>\<open>removeLink\<close> again.
\<close>

function removeLink :: "udp_socket \<Rightarrow> socket_address \<Rightarrow> udp_socket outcome" where
  "removeLink s k =
     (if us_peers s = [] then Ret s
      else if \<not> peer_keys_ok s k then UB BadCompare
      else case map_find sa_less k (us_peers s) of
             None \<Rightarrow> Ret s
           | Some l \<Rightarrow>
               removeLink (s\<lparr>us_peers := map_erase sa_less k (us_peers s), us_destroyed := us_destroyed s @ [l]\<rparr>) (ul_peer l))"
  by pat_completeness auto
termination
  by (relation "measure (\<lambda>(s, k). length (us_peers s))") (auto simp: length_map_erase_find)

declare removeLink.simps [simp del]

definition UdpLink_delete :: "udp_socket \<Rightarrow> udp_link \<Rightarrow> udp_socket outcome" where
  "UdpLink_delete s l = removeLink (s\<lparr>us_destroyed := us_destroyed s @ [l]\<rparr>) (ul_peer l)"

text \<open>The destructor: the peers are moved out before their links are destroyed; no descriptor is closed.\<close>

definition destroy_all :: "udp_socket \<Rightarrow> udp_link list \<Rightarrow> udp_socket outcome" where
  "destroy_all s ls = fold (\<lambda>l r. and_then r (\<lambda>s. UdpLink_delete s l)) ls (Ret s)"

definition UdpSocket_delete :: "udp_socket \<Rightarrow> udp_socket outcome" where
  "UdpSocket_delete s =
     (let localPeers = us_peers s
      in destroy_all (s\<lparr>us_watching := None, us_peers := []\<rparr>) (map snd localPeers))"

text \<open>
  \<^verbatim>\<open>onPacketArrived\<close>: \<open>recv\<close> is the answer of \<^verbatim>\<open>recvfrom\<close> (result, the bytes received, the storage of the sender's
  address), \<open>a\<close> the address of the packet's block.
\<close>

definition onPacketArrived :: "nat \<Rightarrow> int \<times> byte list \<times> byte list \<Rightarrow> udp_socket \<Rightarrow> unit outcome \<times> udp_socket" where
  "onPacketArrived a recv s =
     (let (plen, buffer, addr) = recv
      in if plen < 0 then (Ret (), s)
         else
           let packetBuffer = take (nat plen) buffer
           in case SocketAddress_native addr of
                Throw e \<Rightarrow> (Throw e, s)
              | UB u \<Rightarrow> (UB u, s)
              | Ret s_addr \<Rightarrow>
                  if \<not> peer_keys_ok s s_addr then (UB BadCompare, s)
                  else (case map_find sa_less s_addr (us_peers s) of
                          None \<Rightarrow> (Ret (), s)
                        | Some link \<Rightarrow>
                            (Ret (), s\<lparr>us_peers := map_put sa_less s_addr
                               (UdpLink_propagate link (Packet_new a packetBuffer 0 (of_int plen))) (us_peers s)\<rparr>)))"

text \<open>
  \<^verbatim>\<open>create\<close> and \<^verbatim>\<open>connect\<close>. \<open>socket_call\<close>, \<open>bind_call\<close> and \<open>connect_call\<close> answer result and \<^verbatim>\<open>errno\<close>, the
  latter as it is when the exception is built.
\<close>

definition UdpSocket_create ::
  "(int \<Rightarrow> int \<times> int) \<Rightarrow> (int \<Rightarrow> socket_address \<Rightarrow> int \<times> int) \<Rightarrow> (int \<Rightarrow> string) \<Rightarrow> descriptors \<Rightarrow> socket_address
     \<Rightarrow> udp_socket outcome \<times> descriptors" where
  "UdpSocket_create socket_call bind_call strerror os addr =
     (let (fd, errno) = socket_call (sint (sa_native_family addr))
      in if fd < 0 then (Throw (SocketException errno (''Could not open socket: '' @ strerror errno)), os)
         else
           let (err, errno) = bind_call fd addr
           in if err < 0 then (Throw (SocketException errno (''Could not bind: '' @ strerror errno)), insert fd os - {fd})
              else (Ret (UdpSocket_new fd addr), insert fd os))"

definition UdpSocket_connect ::
  "(int \<Rightarrow> int \<times> int) \<Rightarrow> (int \<Rightarrow> socket_address \<Rightarrow> int \<times> int) \<Rightarrow> (int \<Rightarrow> string) \<Rightarrow> udp_socket \<times> descriptors \<Rightarrow> socket_address
     \<Rightarrow> udp_link outcome \<times> udp_socket \<times> descriptors" where
  "UdpSocket_connect socket_call connect_call strerror st peer =
     (let (s, os) = st
      in if sa_family peer \<noteq> sa_family (us_address s) then (Throw (InvalidArgument ''peer''), s, os)
         else
           let (fd, errno) = socket_call (sint (sa_native_family peer))
           in if fd < 0 then (Throw (SocketException errno (''Could not open socket: '' @ strerror errno)), s, os)
              else
                let os = insert fd os; (err, errno) = connect_call fd peer
                in if err < 0 then (Throw (SocketException errno (''Could not connect: '' @ strerror errno)), s, os)
                   else
                     let os = os - {fd}; link = UdpLink_new fd peer
                     in if \<not> peer_keys_ok s peer then (UB BadCompare, s, os)
                        else
                          let old = map_find sa_less peer (us_peers s);
                              s' = s\<lparr>us_peers := map_put sa_less peer link (us_peers s)\<rparr>
                          in case (case old of None \<Rightarrow> Ret s' | Some l \<Rightarrow> UdpLink_delete s' l) of
                               Throw e \<Rightarrow> (Throw e, s', os)
                             | UB u \<Rightarrow> (UB u, s', os)
                             | Ret s'' \<Rightarrow>
                                 (case map_find sa_less peer (us_peers s'') of
                                    None \<Rightarrow> (Throw (OutOfRange ''map::at''), s'', os)
                                  | Some l \<Rightarrow> (Ret l, s'', os)))"

definition UdpSocket_address :: "udp_socket \<Rightarrow> socket_address" where
  "UdpSocket_address s = us_address s"

section \<open>Sending\<close>

definition interrupted :: "int \<times> int \<Rightarrow> bool" where
  "interrupted r \<longleftrightarrow> fst r < 0 \<and> snd r = EINTR"

text \<open>What one answer of the system that is not an interruption means for the caller.\<close>

definition send_result :: "(int \<Rightarrow> string) \<Rightarrow> int \<times> int \<Rightarrow> bool outcome" where
  "send_result strerror r =
     (if fst r \<ge> 0 then Ret True
      else if snd r \<in> {EAGAIN, EHOSTUNREACH, ENETUNREACH, ENETDOWN} then Ret False
      else Throw (SocketException (snd r) (strerror (snd r))))"

lemma UdpLink_send_step:
  "interrupted (send c i) \<Longrightarrow>
   UdpLink_send send strerror c i = map_option (apsnd ((#) c)) (UdpLink_send send strerror c (Suc i))"
  by (subst UdpLink_send.simps)
    (cases "UdpLink_send send strerror c (Suc i)"; auto simp: interrupted_def errno_defs split: prod.split)

lemma UdpLink_send_stop:
  "\<not> interrupted (send c i) \<Longrightarrow> UdpLink_send send strerror c i = Some (send_result strerror (send c i), [c])"
  by (subst UdpLink_send.simps) (auto simp: interrupted_def send_result_def errno_defs split: prod.split)

lemma UdpLink_send_from:
  assumes "\<forall>j<n. interrupted (send c (i + j))" and "\<not> interrupted (send c (i + n))"
  shows "UdpLink_send send strerror c i = Some (send_result strerror (send c (i + n)), replicate (Suc n) c)"
  using assms
proof (induction n arbitrary: i)
  case 0
  then show ?case using UdpLink_send_stop [of send c i strerror] by simp
next
  case (Suc n)
  have "\<forall>j<n. interrupted (send c (Suc i + j))"
    using Suc.prems(1) by (metis Suc_less_eq add_Suc_right add_Suc_shift)
  then have "UdpLink_send send strerror c (Suc i) = Some (send_result strerror (send c (Suc i + n)), replicate (Suc n) c)"
    using Suc.prems(2) by (intro Suc.IH) simp_all
  moreover have "interrupted (send c i)" using Suc.prems(1) by (metis add.right_neutral zero_less_Suc)
  ultimately show ?case by (simp add: UdpLink_send_step)
qed

text \<open>Whatever \<^verbatim>\<open>write\<close> returns, some call was not interrupted, and every call it made had the same arguments.\<close>

lemma UdpLink_send_returns:
  assumes "UdpLink_send send strerror c i = Some r"
  shows "(\<exists>n. \<not> interrupted (send c n)) \<and> set (snd r) \<subseteq> {c}"
proof (rule UdpLink_send.raw_induct
    [where P = "\<lambda>send strerror c i r. (\<exists>n. \<not> interrupted (send c n)) \<and> set (snd r) \<subseteq> {c}", OF _ assms])
  fix f and send :: "datagram \<Rightarrow> nat \<Rightarrow> int \<times> int" and strerror c i r
  assume IH: "\<And>s t d k y. f s t d k = Some y \<Longrightarrow> (\<exists>n. \<not> interrupted (s d n)) \<and> set (snd y) \<subseteq> {d}"
    and body: "(case send c i of (err, errno) \<Rightarrow>
        if err \<ge> 0 then Some (Ret True, [c])
        else if errno = EAGAIN then Some (Ret False, [c])
        else if errno = EINTR then Option.bind (f send strerror c (Suc i)) (\<lambda>(r, calls). Some (r, c # calls))
        else if errno = EHOSTUNREACH \<or> errno = ENETUNREACH \<or> errno = ENETDOWN then Some (Ret False, [c])
        else Some (Throw (SocketException errno (strerror errno)), [c])) = Some r"
  show "(\<exists>n. \<not> interrupted (send c n)) \<and> set (snd r) \<subseteq> {c}"
  proof (cases "interrupted (send c i)")
    case True
    with body obtain y where "f send strerror c (Suc i) = Some y" "r = apsnd ((#) c) y"
      by (auto simp: interrupted_def errno_defs bind_eq_Some_conv split: prod.splits)
    with IH [OF this(1)] show ?thesis by simp
  next
    case False
    with body have "set (snd r) \<subseteq> {c}"
      by (auto simp: interrupted_def errno_defs split: prod.splits if_splits)
    with False show ?thesis by blast
  qed
qed

lemma UdpLink_send_first:
  assumes "\<forall>j<n. interrupted (send c j)" and "\<not> interrupted (send c n)"
  shows "UdpLink_send send strerror c 0 = Some (send_result strerror (send c n), replicate (Suc n) c)"
  using assms UdpLink_send_from [of n send c 0 strerror] by simp

lemma UdpLink_send_None: "UdpLink_send send strerror c 0 = None \<longleftrightarrow> (\<forall>j. interrupted (send c j))"
proof
  assume none: "UdpLink_send send strerror c 0 = None"
  show "\<forall>j. interrupted (send c j)"
  proof (rule ccontr)
    assume "\<not> (\<forall>j. interrupted (send c j))"
    then obtain j where j: "\<not> interrupted (send c j)" by blast
    let ?n = "LEAST j. \<not> interrupted (send c j)"
    have "\<not> interrupted (send c ?n)" using j by (rule LeastI)
    moreover have "\<forall>j<?n. interrupted (send c j)" using not_less_Least by blast
    ultimately show False using UdpLink_send_first [of ?n send c strerror] none by (metis option.distinct(1))
  qed
next
  assume "\<forall>j. interrupted (send c j)"
  then show "UdpLink_send send strerror c 0 = None"
    using UdpLink_send_returns [of send strerror c 0] by (metis option.exhaust)
qed

lemma UdpLink_write_calls:
  "UdpLink_write sendto strerror l p = Some (r, calls) \<Longrightarrow>
   set calls \<subseteq> {(ul_fd l, view p, take (sa_native_len (ul_peer l)) (sa_addr (ul_peer l)))}"
  using UdpLink_send_returns [of _ strerror _ 0 "(r, calls)"] by (simp add: UdpLink_write_def)

lemma UdpLink_write_now:
  assumes "\<not> interrupted (sendto (ul_fd l) (view p) (take (sa_native_len (ul_peer l)) (sa_addr (ul_peer l))) 0)"
  shows "UdpLink_write sendto strerror l p
    = Some (send_result strerror (sendto (ul_fd l) (view p) (take (sa_native_len (ul_peer l)) (sa_addr (ul_peer l))) 0),
        [(ul_fd l, view p, take (sa_native_len (ul_peer l)) (sa_addr (ul_peer l)))])"
  using assms UdpLink_send_stop [of "\<lambda>(fd, data, addr). sendto fd data addr"
      "(ul_fd l, view p, take (sa_native_len (ul_peer l)) (sa_addr (ul_peer l)))" 0 strerror]
  by (simp add: UdpLink_write_def)

text \<open>
  C26. \<^verbatim>\<open>UdpLink::write\<close> resends as long as it is interrupted and reports the first other answer: true if the
  datagram was taken, false if the queue is full or the network or host cannot be reached, and an exception
  with the error number otherwise. Every call it makes, one for each interruption and the last one, sends
  the packet's bytes over the link's descriptor to the link's peer. It does not return exactly if every
  attempt is interrupted.
\<close>

theorem udp_write_result:
  "((\<forall>j<n. interrupted (sendto (ul_fd l) (view p) (take (sa_native_len (ul_peer l)) (sa_addr (ul_peer l))) j)) \<longrightarrow>
     \<not> interrupted (sendto (ul_fd l) (view p) (take (sa_native_len (ul_peer l)) (sa_addr (ul_peer l))) n) \<longrightarrow>
     UdpLink_write sendto strerror l p
       = Some (send_result strerror (sendto (ul_fd l) (view p) (take (sa_native_len (ul_peer l)) (sa_addr (ul_peer l))) n),
           replicate (Suc n) (ul_fd l, view p, take (sa_native_len (ul_peer l)) (sa_addr (ul_peer l)))))
   \<and> (UdpLink_write sendto strerror l p = None
        \<longleftrightarrow> (\<forall>j. interrupted (sendto (ul_fd l) (view p) (take (sa_native_len (ul_peer l)) (sa_addr (ul_peer l))) j)))"
proof -
  let ?c = "(ul_fd l, view p, take (sa_native_len (ul_peer l)) (sa_addr (ul_peer l)))"
  let ?send = "\<lambda>(fd, data, addr). sendto fd data addr"
  show ?thesis
    using UdpLink_send_first [of n ?send ?c strerror] UdpLink_send_None [of ?send strerror ?c] by (auto simp: UdpLink_write_def)
qed

theorem udp_write_result_witness:
  "UdpLink_write (\<lambda>fd d a j. if j < 2 then (- 1, EINTR) else (- 1, ENETDOWN)) (\<lambda>_. []) (UdpLink_new 3 \<lparr>sa_addr = []\<rparr>) (Packet_new 1 [7] 0 1)
     = Some (Ret False, replicate 3 (3, [7], []))"
  using udp_write_result [of 2 "\<lambda>fd d a j. if j < 2 then (- 1, EINTR) else (- 1, ENETDOWN)" "UdpLink_new 3 \<lparr>sa_addr = []\<rparr>"
      "Packet_new 1 [7] 0 1" "\<lambda>_. []"]
  by (simp add: interrupted_def send_result_def errno_defs UdpLink_new_def view_simps numeral_3_eq_3)

section \<open>Peers\<close>

lemma sa_less_irrefl [simp]: "wf_sockaddr k \<Longrightarrow> \<not> sa_less k k"
  by (simp add: sa_less_iff)

lemma peer_map_single [simp]:
  assumes "wf_sockaddr k"
  shows "map_find sa_less k [(k, v)] = Some v" "map_put sa_less k v' [(k, v)] = [(k, v')]" "map_erase sa_less k [(k, v)] = []"
  using assms by (simp_all add: sa_less_irrefl)

lemma peer_keys_ok_empty: "wf_sockaddr k \<Longrightarrow> us_peers s = [] \<Longrightarrow> peer_keys_ok s k"
  by (simp add: peer_keys_ok_def compare_ok_def sa_less_irrefl)

lemma peer_keys_ok_single:
  assumes "wf_sockaddr k" and "wf_sockaddr k'" and "us_peers s = [(k, l)]"
  shows "peer_keys_ok s k' \<longleftrightarrow> k' = k"
proof (cases "k' = k")
  case True
  with assms show ?thesis by (simp add: peer_keys_ok_def compare_ok_def sa_less_irrefl)
next
  case False
  then have "sa_less k k'" "sa_less k' k"
    using assms by (simp_all add: sa_less_iff)
  with False assms(3) show ?thesis by (auto simp: peer_keys_ok_def compare_ok_def)
qed

lemma removeLink_empty [simp]: "us_peers s = [] \<Longrightarrow> removeLink s k = Ret s"
  by (simp add: removeLink.simps)


section \<open>Connecting\<close>

text \<open>The system gives out descriptors that are not in use, and refuses to send on one that is not open.\<close>

definition fresh_sockets :: "(int \<Rightarrow> int \<times> int) \<Rightarrow> descriptors \<Rightarrow> bool" where
  "fresh_sockets socket_call os \<longleftrightarrow> (\<forall>f. fst (socket_call f) \<ge> 0 \<longrightarrow> fst (socket_call f) \<notin> os)"

definition bad_descriptor :: "sendto \<Rightarrow> descriptors \<Rightarrow> bool" where
  "bad_descriptor sendto os \<longleftrightarrow> (\<forall>fd d a j. fd \<notin> os \<longrightarrow> sendto fd d a j = (- 1, EBADF))"

lemma connect_new:
  assumes "us_peers s = []" and "wf_sockaddr peer" and "sa_family peer = sa_family (us_address s)"
    and "socket_call (sint (sa_native_family peer)) = (fd, e)" and "0 \<le> fd" and "connect_call fd peer = (err, e')" and "0 \<le> err"
  shows "UdpSocket_connect socket_call connect_call strerror (s, os) peer
    = (Ret (UdpLink_new fd peer), s\<lparr>us_peers := [(peer, UdpLink_new fd peer)]\<rparr>, insert fd os - {fd})"
  using assms by (simp add: UdpSocket_connect_def peer_keys_ok_empty Let_def)

text \<open>
  C31. A connected link cannot send: \<^verbatim>\<open>connect\<close> closes the descriptor of the new link before it returns, so
  the open descriptors are those from before, the link's is not among them, and every \<^verbatim>\<open>write\<close> on the link
  is one call of \<^verbatim>\<open>sendto\<close> that fails with \<^verbatim>\<open>EBADF\<close>, until the system gives the number to somebody else.
\<close>

theorem connected_link_cannot_send:
  assumes "us_peers s = []" and "wf_sockaddr peer" and "sa_family peer = sa_family (us_address s)"
    and "fresh_sockets socket_call os" and "0 \<le> fst (socket_call (sint (sa_native_family peer)))"
    and "\<forall>fd. 0 \<le> fst (connect_call fd peer)" and "bad_descriptor sendto os"
  shows "\<exists>l s'. UdpSocket_connect socket_call connect_call strerror (s, os) peer = (Ret l, s', os)
    \<and> us_peers s' = [(peer, l)] \<and> ul_state l = LinkOpen \<and> ul_fd l \<notin> os
    \<and> UdpLink_write sendto strerror l p
        = Some (Throw (SocketException EBADF (strerror EBADF)), [(ul_fd l, view p, take (sa_native_len peer) (sa_addr peer))])"
proof -
  obtain fd e where sc: "socket_call (sint (sa_native_family peer)) = (fd, e)" by fastforce
  obtain err e' where cc: "connect_call fd peer = (err, e')" by fastforce
  have ok: "0 \<le> fd" "0 \<le> err" using assms(5,6) sc cc by (auto dest: spec [of _ fd])
  have "fd \<notin> os" using assms(4) sc ok(1) unfolding fresh_sockets_def by (metis fst_conv)
  moreover from this have "sendto fd x y 0 = (- 1, EBADF)" for x y
    using assms(7) by (simp add: bad_descriptor_def)
  ultimately show ?thesis
    using connect_new [of s peer socket_call fd e connect_call err e' strerror os] assms(1-3) sc cc ok
      UdpLink_write_now [of sendto "UdpLink_new fd peer" p strerror]
    by (simp add: UdpLink_new_def interrupted_def send_result_def errno_defs)
qed


text \<open>An IPv6 address for the examples, a socket bound to it, and a system whose calls succeed.\<close>

definition demo_addr :: "u16 \<Rightarrow> socket_address" where
  "demo_addr port = SocketAddress_ip (IPAddress_in6 (replicate 16 0)) port"

lemma wf_demo: "wf_sockaddr (demo_addr port)" and family_demo: "sa_family (demo_addr port) = IPv6"
  by (simp_all add: demo_addr_def wf_intros)

text \<open>A well-formed address survives the way through the system's storage.\<close>

lemma native_roundtrip: "wf_sockaddr a \<Longrightarrow> SocketAddress_native (sa_addr a) = Ret a"
  by (auto simp: SocketAddress_native_def wf_sockaddr_def sa_native_family_def memcpy_def intro!: socket_address.equality)
    (metis append_take_drop_id)

lemma demo_addr_neq: "demo_addr 2 \<noteq> demo_addr 1"
proof -
  have "wf_ip (IPAddress_in6 (replicate 16 0))" by (simp add: wf_intros)
  from sockaddr_port [OF this, of 1] sockaddr_port [OF this, of 2] htons_inject [of 1 2] show ?thesis
    by (force simp: demo_addr_def)
qed

definition demo_socket :: udp_socket where
  "demo_socket = (UdpSocket_new 3 (demo_addr 3))\<lparr>us_peers := [(demo_addr 1, UdpLink_new 5 (demo_addr 1))]\<rparr>"

lemma demo_socket_simps:
  "us_peers demo_socket = [(demo_addr 1, UdpLink_new 5 (demo_addr 1))]" "sa_family (us_address demo_socket) = IPv6"
  by (simp_all add: demo_socket_def UdpSocket_new_def family_demo)

text \<open>
  C28. A socket cannot have two peers: with a peer registered, connecting to another address of the
  socket's family, or receiving a datagram from any other address, asks the map to compare two addresses of which each is less
  than the other, which is undefined.
\<close>

theorem second_peer_undefined:
  assumes "us_peers s = [(k, l)]" and "wf_sockaddr k"
    and "wf_sockaddr other" and "sa_family other = sa_family (us_address s)" and "other \<noteq> k"
    and "0 \<le> fst (socket_call (sint (sa_native_family other)))" and "\<forall>fd. 0 \<le> fst (connect_call fd other)"
    and "SocketAddress_native addr = Ret other" and "0 \<le> plen"
  shows "fst (UdpSocket_connect socket_call connect_call strerror (s, os) other) = UB BadCompare
    \<and> onPacketArrived a (plen, buffer, addr) s = (UB BadCompare, s)"
proof -
  have "\<not> peer_keys_ok s other" using peer_keys_ok_single [OF assms(2,3,1)] assms(5) by simp
  moreover obtain fd e where "socket_call (sint (sa_native_family other)) = (fd, e)" by fastforce
  moreover obtain err e' where "connect_call fd other = (err, e')" by fastforce
  ultimately show ?thesis
    using assms(4,6-9) by (auto simp: UdpSocket_connect_def onPacketArrived_def dest: spec [of _ fd])
qed

theorem second_peer_undefined_witness:
  "fst (UdpSocket_connect (\<lambda>_. (6, 0)) (\<lambda>_ _. (0, 0)) (\<lambda>_. []) (demo_socket, {}) (demo_addr 2)) = UB BadCompare
   \<and> onPacketArrived 9 (1, [7], sa_addr (demo_addr 2)) demo_socket = (UB BadCompare, demo_socket)"
  using second_peer_undefined [of demo_socket "demo_addr 1" "UdpLink_new 5 (demo_addr 1)" "demo_addr 2" "\<lambda>_. (6, 0)" "\<lambda>_ _. (0, 0)"
      "sa_addr (demo_addr 2)" 1 "\<lambda>_. []" "{}" 9 "[7]"]
  by (simp add: demo_socket_simps family_demo wf_demo demo_addr_neq native_roundtrip)

theorem connected_link_cannot_send_witness:
  "\<exists>l s'. UdpSocket_connect (\<lambda>_. (6, 0)) (\<lambda>_ _. (0, 0)) (\<lambda>_. ''bad'') (UdpSocket_new 3 (demo_addr 3), {0, 3}) (demo_addr 1) = (Ret l, s', {0, 3})
     \<and> ul_fd l \<notin> {0, 3}
     \<and> UdpLink_write (\<lambda>fd d a j. if fd \<in> {0, 3} then (int (length d), 0) else (- 1, EBADF)) (\<lambda>_. ''bad'') l (Packet_new 1 [7] 0 1)
       = Some (Throw (SocketException EBADF ''bad''),
           [(ul_fd l, [7], take (sa_native_len (demo_addr 1)) (sa_addr (demo_addr 1)))])"
  using connected_link_cannot_send [of "UdpSocket_new 3 (demo_addr 3)" "demo_addr 1" "\<lambda>_. (6, 0)" "{0, 3}" "\<lambda>_ _. (0, 0)"
      "\<lambda>fd d a j. if fd \<in> {0, 3} then (int (length d), 0) else (- 1, EBADF)" "\<lambda>_. ''bad''" "Packet_new 1 [7] 0 1"]
  by (auto simp: UdpSocket_new_def family_demo wf_demo fresh_sockets_def bad_descriptor_def view_simps)


section \<open>Receiving\<close>

text \<open>A datagram of the peer is propagated by its link as a packet showing the received bytes.\<close>

lemma arrived_packet:
  assumes "0 \<le> plen" and "nat plen \<le> length buffer" and "length buffer \<le> 65536"
  shows "wf_packet (Packet_new a (take (nat plen) buffer) 0 (of_int plen))"
    and "view (Packet_new a (take (nat plen) buffer) 0 (of_int plen)) = take (nat plen) buffer"
proof -
  have "unat (of_int plen :: size_t) = nat plen"
    using assms unat_of_nat_size [of "nat plen"] by simp
  with assms show "wf_packet (Packet_new a (take (nat plen) buffer) 0 (of_int plen))"
    and "view (Packet_new a (take (nat plen) buffer) 0 (of_int plen)) = take (nat plen) buffer"
    by (auto intro!: wf_Packet_new simp: view_simps)
qed

lemma onPacketArrived_peer:
  assumes "us_peers s = [(k, l)]" and "wf_sockaddr k" and "SocketAddress_native addr = Ret k" and "0 \<le> plen"
  shows "onPacketArrived a (plen, buffer, addr) s =
    (Ret (), s\<lparr>us_peers := [(k, UdpLink_propagate l (Packet_new a (take (nat plen) buffer) 0 (of_int plen)))]\<rparr>)"
proof -
  have "peer_keys_ok s k" using peer_keys_ok_single [OF assms(2,2,1)] by simp
  with assms show ?thesis by (simp add: onPacketArrived_def)
qed

lemma onPacketArrived_other:
  assumes "us_peers s = [(k, l)]" and "wf_sockaddr k" and "wf_sockaddr other" and "other \<noteq> k"
    and "SocketAddress_native addr = Ret other" and "0 \<le> plen"
  shows "onPacketArrived a (plen, buffer, addr) s = (UB BadCompare, s)"
proof -
  have "\<not> peer_keys_ok s other" using peer_keys_ok_single [OF assms(2,3,1)] assms(4) by simp
  with assms show ?thesis by (simp add: onPacketArrived_def)
qed

text \<open>
  A datagram of the peer reaches the readers of its link once and unchanged: after \<^verbatim>\<open>recvfrom\<close>
  delivered \<open>plen\<close> bytes from the peer's address, an open link raises \<^verbatim>\<open>read\<close> with a well-formed packet showing
  exactly these bytes; a closed link drops it. Errors of \<^verbatim>\<open>recvfrom\<close> and datagrams to a socket without
  peers change nothing.
\<close>

theorem datagram_reaches_peer:
  assumes "us_peers s = [(k, l)]" and "wf_sockaddr k"
    and "SocketAddress_native addr = Ret k" and "0 \<le> plen" and "nat plen \<le> length buffer" and "length buffer \<le> 65536"
  shows "\<exists>q l'. onPacketArrived a (plen, buffer, addr) s = (Ret (), s\<lparr>us_peers := [(k, l')]\<rparr>)
    \<and> wf_packet q \<and> view q = take (nat plen) buffer
    \<and> l' = (if ul_state l = LinkClosed then l else l\<lparr>st_raised := st_raised l @ [q]\<rparr>)
    \<and> onPacketArrived a (- 1, buffer, addr) s = (Ret (), s)
    \<and> onPacketArrived a (plen, buffer, addr) (s\<lparr>us_peers := []\<rparr>) = (Ret (), s\<lparr>us_peers := []\<rparr>)"
proof -
  let ?q = "Packet_new a (take (nat plen) buffer) 0 (of_int plen)"
  have "peer_keys_ok (s\<lparr>us_peers := []\<rparr>) k" using peer_keys_ok_empty [OF assms(2)] by simp
  then have "onPacketArrived a (plen, buffer, addr) (s\<lparr>us_peers := []\<rparr>) = (Ret (), s\<lparr>us_peers := []\<rparr>)"
    using assms(3,4) by (simp add: onPacketArrived_def)
  moreover have "onPacketArrived a (- 1, buffer, addr) s = (Ret (), s)"
    by (simp add: onPacketArrived_def)
  ultimately show ?thesis
    using onPacketArrived_peer [OF assms(1-4)] arrived_packet [OF assms(4-6)]
    by (auto simp: UdpLink_propagate_def intro!: exI [of _ ?q])
qed

section \<open>Life of a socket\<close>

lemma destroy_all_empty:
  "us_peers s = [] \<Longrightarrow> destroy_all s ls = Ret (s\<lparr>us_destroyed := us_destroyed s @ ls\<rparr>)"
  unfolding destroy_all_def
proof (induction ls arbitrary: s)
  case (Cons l ls)
  then show ?case
    using Cons.IH [of "s\<lparr>us_destroyed := us_destroyed s @ [l]\<rparr>"] by (simp add: UdpLink_delete_def)
qed simp

text \<open>
  C33. The destructor destroys every link exactly once, although each link's destructor calls back into
  the socket, and stops the watcher. \<^verbatim>\<open>create\<close> leaves no descriptor behind when it fails; when it succeeds the
  watcher runs on the socket's own descriptor, which nothing closes afterwards.
\<close>

theorem socket_life:
  assumes "fresh_sockets socket_call os"
  shows "UdpSocket_delete s = Ret (s\<lparr>us_watching := None, us_peers := [], us_destroyed := us_destroyed s @ map snd (us_peers s)\<rparr>)
    \<and> (case UdpSocket_create socket_call bind_call strerror os addr of
         (Ret t, os') \<Rightarrow> us_watching t = Some (us_fd t) \<and> us_peers t = [] \<and> us_fd t \<notin> os \<and> os' = insert (us_fd t) os
       | (Throw e, os') \<Rightarrow> os' = os \<and> number e \<noteq> None
       | (UB u, os') \<Rightarrow> False)"
proof -
  obtain fd e where sc: "socket_call (sint (sa_native_family addr)) = (fd, e)" by fastforce
  moreover have "0 \<le> fd \<Longrightarrow> fd \<notin> os" using assms sc unfolding fresh_sockets_def by (metis fst_conv)
  ultimately show ?thesis
    using destroy_all_empty [of "s\<lparr>us_watching := None, us_peers := []\<rparr>"]
    by (auto simp: UdpSocket_delete_def UdpSocket_create_def UdpSocket_new_def Let_def split: prod.split)
qed

theorem socket_life_witness:
  "UdpSocket_delete demo_socket
     = Ret (demo_socket\<lparr>us_watching := None, us_peers := [], us_destroyed := [UdpLink_new 5 (demo_addr 1)]\<rparr>)
   \<and> (case UdpSocket_create (\<lambda>_. (4, 0)) (\<lambda>_ _. (- 1, 98)) (\<lambda>_. []) {0, 3} (demo_addr 1) of
        (Throw e, os') \<Rightarrow> os' = {0, 3} | _ \<Rightarrow> False)"
proof -
  have "fresh_sockets (\<lambda>_. (4, 0)) {0, 3}" by (simp add: fresh_sockets_def)
  note life = socket_life [OF this, of demo_socket "\<lambda>_ _. (- 1, 98)" "\<lambda>_. []" "demo_addr 1"]
  have "us_destroyed demo_socket = []" by (simp add: demo_socket_def UdpSocket_new_def)
  moreover have "\<exists>e os'. UdpSocket_create (\<lambda>_. (4, 0)) (\<lambda>_ _. (- 1, 98)) (\<lambda>_. []) {0, 3} (demo_addr 1) = (Throw e, os')"
    by (simp add: UdpSocket_create_def)
  ultimately show ?thesis using life by (auto simp: demo_socket_simps)
qed

end
