(* ===== verification/Node.thy ===== *)
theory Node
  imports Session_Context Udp
begin

text \<open>
  A node of the network: a \<^verbatim>\<open>UdpSocket\<close> with the link to its peer, and a \<^verbatim>\<open>CryptoSession\<close> on top of this
  link. The session writes to the link, and its \<^verbatim>\<open>readPacket\<close> is connected to the link's \<^verbatim>\<open>read\<close> signal
  (constructor of \<^verbatim>\<open>CryptoSession\<close>), so that a datagram that arrives at the socket is handled by the session
  before the socket's callback returns.
\<close>

section \<open>The link as the session's stream\<close>

text \<open>
  A write of the session is one of the link. The state below the session is the list of the calls of
  \<^verbatim>\<open>sendto\<close> that the link made, failed ones included: descriptor, bytes, native address, as the system got
  them. A write whose every attempt is interrupted never returns, which ends the run.
\<close>

definition link_env ::
  "sendto \<Rightarrow> (int \<Rightarrow> string) \<Rightarrow> udp_link \<Rightarrow> nat \<Rightarrow> (nat \<Rightarrow> byte list) \<Rightarrow> datagram list stream_env" where
  "link_env sendto strerror l a block =
     \<lparr>se_write = (\<lambda>sent p. case UdpLink_write sendto strerror l p of
                    Some (r, calls) \<Rightarrow> (r, sent @ calls) | None \<Rightarrow> (UB NoReturn, sent)),
      se_addr = a, se_block = block\<rparr>"

text \<open>The bytes of the datagrams.\<close>

definition sent_datagrams :: "datagram list \<Rightarrow> byte list set" where
  "sent_datagrams sent = (\<lambda>(fd, x, addr). x) ` set sent"

lemma link_env_calls:
  "se_write (link_env sendto strerror l a block) sent p = (r, sent') \<Longrightarrow>
   \<exists>calls. sent' = sent @ calls \<and> set calls \<subseteq> {(ul_fd l, view p, take (sa_native_len (ul_peer l)) (sa_addr (ul_peer l)))}"
  by (auto simp: link_env_def split: option.splits prod.splits dest: UdpLink_write_calls)

lemma observes_link: "observes (link_env sendto strerror l a block) sent_datagrams"
  unfolding observes_def
proof (intro allI)
  fix n p
  from link_env_calls [of sendto strerror l a block n p] obtain calls
    where "snd (se_write (link_env sendto strerror l a block) n p) = n @ calls"
      and "set calls \<subseteq> {(ul_fd l, view p, take (sa_native_len (ul_peer l)) (sa_addr (ul_peer l)))}"
    by (metis prod.collapse)
  then show "sent_datagrams (snd (se_write (link_env sendto strerror l a block) n p)) \<subseteq> insert (view p) (sent_datagrams n)"
    by (force simp: sent_datagrams_def)
qed

section \<open>The node\<close>

record 'g node =
  nd_socket :: udp_socket
  nd_session :: "('g, datagram list) session"

text \<open>The packets that the link to \<open>k\<close> has raised.\<close>

definition raised_by :: "udp_socket \<Rightarrow> socket_address \<Rightarrow> packet list" where
  "raised_by s k = (case map_find sa_less k (us_peers s) of None \<Rightarrow> [] | Some l \<Rightarrow> st_raised l)"

text \<open>
  The watcher's callback, with the slot of the session that is connected to the link of peer \<open>k\<close>. An
  exception or undefined behaviour of either ends it.
\<close>

definition node_receive ::
  "nat \<Rightarrow> 'g gnutls \<Rightarrow> datagram list stream_env \<Rightarrow> socket_address \<Rightarrow> nat \<Rightarrow> int \<times> byte list \<times> byte list \<Rightarrow> 'g node
     \<Rightarrow> (unit outcome \<times> 'g node) option" where
  "node_receive fuel G E k a recv n =
     (case onPacketArrived a recv (nd_socket n) of
        (Ret _, s) \<Rightarrow>
          (case drop (length (raised_by (nd_socket n) k)) (raised_by s k) of
             [] \<Rightarrow> Some (Ret (), n\<lparr>nd_socket := s\<rparr>)
           | p # _ \<Rightarrow>
               (case CryptoSession_readPacket fuel G E (nd_session n) p of
                  None \<Rightarrow> None
                | Some (r, cs) \<Rightarrow> Some (r, n\<lparr>nd_socket := s, nd_session := cs\<rparr>)))
      | (Throw e, s) \<Rightarrow> Some (Throw e, n\<lparr>nd_socket := s\<rparr>)
      | (UB u, s) \<Rightarrow> Some (UB u, n\<lparr>nd_socket := s\<rparr>))"

section \<open>What is below a session\<close>

text \<open>A property of the stream below that each of its writes keeps, every operation of the session keeps.\<close>

definition keeps_next :: "'n stream_env \<Rightarrow> ('n \<Rightarrow> bool) \<Rightarrow> bool" where
  "keeps_next E Q \<longleftrightarrow> (\<forall>n p. Q n \<longrightarrow> Q (snd (se_write E n p)))"

lemma callbacks_next:
  "CryptoSession_pull s k = (r, s') \<Longrightarrow> cs_next s' = cs_next s"
  "keeps_next E Q \<Longrightarrow> CryptoSession_push E s d = (r', s') \<Longrightarrow> Q (cs_next s) \<Longrightarrow> Q (cs_next s')"
  "keeps_next E Q \<Longrightarrow> CryptoSession_vec_push E s ds = (r', s') \<Longrightarrow> Q (cs_next s) \<Longrightarrow> Q (cs_next s')"
proof -
  show "CryptoSession_pull s k = (r, s') \<Longrightarrow> cs_next s' = cs_next s"
    by (auto simp: CryptoSession_pull_def Let_def split: option.splits if_splits)
  have w: "Q n \<Longrightarrow> se_write E n p = (x, m) \<Longrightarrow> Q m" if "keeps_next E Q" for n p x m
    using that unfolding keeps_next_def by (metis snd_conv)
  then show "keeps_next E Q \<Longrightarrow> CryptoSession_push E s d = (r', s') \<Longrightarrow> Q (cs_next s) \<Longrightarrow> Q (cs_next s')"
    by (auto simp: CryptoSession_push_def Let_def split: prod.splits)
  show "keeps_next E Q \<Longrightarrow> CryptoSession_vec_push E s ds = (r', s') \<Longrightarrow> Q (cs_next s) \<Longrightarrow> Q (cs_next s')"
    using w by (auto simp: CryptoSession_vec_push_def Stream_write_range_def Let_def split: prod.splits outcome.splits)
qed

lemma run_gcall_next:
  assumes "keeps_next E Q"
  shows "run_gcall t E s = (r, s') \<Longrightarrow> Q (cs_next s) \<Longrightarrow> Q (cs_next s')"
proof (induction t arbitrary: s)
  case (Pull n k)
  then show ?case by (auto split: prod.splits outcome.splits dest!: callbacks_next(1)) (metis rangeI)
next
  case (Push d k)
  then show ?case by (auto split: prod.splits outcome.splits dest!: callbacks_next(2) [OF assms])
next
  case (VecPush ds k)
  then show ?case by (auto split: prod.splits outcome.splits dest!: callbacks_next(3) [OF assms])
qed auto

lemma call_gnutls_next:
  assumes "keeps_next E Q" and "call_gnutls E t s = (r, s')" and "Q (cs_next s)"
  shows "Q (cs_next s')"
  using assms(2) run_gcall_next [OF assms(1), of t s] assms(3)
  by (auto simp: call_gnutls_def split: prod.splits outcome.splits)

lemma call_next_after:
  "keeps_next E Q \<Longrightarrow> Q (cs_next s) \<Longrightarrow> holds_after (\<lambda>s. Q (cs_next s)) (\<lambda>s. Q (cs_next s)) (call_gnutls E t s)"
  using call_gnutls_next [of E Q t s] by (cases "call_gnutls E t s"; cases "fst (call_gnutls E t s)") auto

lemma next_inv: "keeps_next E Q \<Longrightarrow> session_inv G E (\<lambda>s. Q (cs_next s)) (\<lambda>s. Q (cs_next s))"
  by (rule session_invI) (auto intro: call_next_after simp: CryptoSession_propagate_def dest: call_gnutls_next)

lemma session_step_next:
  assumes "keeps_next E Q" and "session_step fuel G E op s = Some (r, s')" and "Q (cs_next s)"
  shows "Q (cs_next s')"
proof -
  have "holds_after (\<lambda>s. Q (cs_next s)) (\<lambda>s. Q (cs_next s)) (r, s')"
    by (rule session_step_inv [OF next_inv [OF assms(1)] assms(3) _ _ assms(2)]) (simp_all add: assms(1,3) call_next_after)
  then show ?thesis by (cases r) simp_all
qed

section \<open>Runs of a node\<close>

text \<open>Datagrams arrive, and the program calls operations of the session.\<close>

inductive node_reach :: "'g gnutls \<Rightarrow> datagram list stream_env \<Rightarrow> socket_address \<Rightarrow> 'g node \<Rightarrow> 'g node \<Rightarrow> bool"
  for G E k n0 where
  node_start: "node_reach G E k n0 n0"
| node_datagram: "node_reach G E k n0 n \<Longrightarrow> node_receive fuel G E k a recv n = Some (r, n') \<Longrightarrow> (\<And>u. r \<noteq> UB u)
    \<Longrightarrow> node_reach G E k n0 n'"
| node_operation: "node_reach G E k n0 n \<Longrightarrow> session_step fuel G E op (nd_session n) = Some (r, cs) \<Longrightarrow> (\<And>u. r \<noteq> UB u)
    \<Longrightarrow> node_reach G E k n0 (n\<lparr>nd_session := cs\<rparr>)"

text \<open>What a datagram does to the session: nothing, or one step of reading a packet.\<close>

lemma node_receive_session:
  assumes "node_receive fuel G E k a recv n = Some (r, n')"
  obtains "nd_session n' = nd_session n"
  | p where "session_step fuel G E (OpRead p) (nd_session n) = Some (r, nd_session n')"
  using assms by (auto simp: node_receive_def split: prod.splits outcome.splits list.splits option.splits)

lemma node_reach_session: "node_reach G E k n0 n \<Longrightarrow> session_reach G E (nd_session n0) (nd_session n)"
proof (induction rule: node_reach.induct)
  case node_start
  show ?case by (rule reach_start)
next
  case (node_datagram n fuel a recv r n')
  from node_datagram.hyps(2) show ?case
  proof (rule node_receive_session)
    fix p assume "session_step fuel G E (OpRead p) (nd_session n) = Some (r, nd_session n')"
    then show ?thesis using node_datagram by (blast intro: reach_step)
  qed (use node_datagram.IH in simp)
next
  case (node_operation n fuel op r cs)
  then show ?case by (auto intro: reach_step)
qed

definition addressed_to :: "socket_address \<Rightarrow> int \<Rightarrow> datagram list \<Rightarrow> bool" where
  "addressed_to k d sent \<longleftrightarrow> (\<forall>(fd, bytes, addr)\<in>set sent. fd = d \<and> addr = take (sa_native_len k) (sa_addr k))"

lemma link_env_keeps: "keeps_next (link_env sendto strerror l a block) (addressed_to (ul_peer l) (ul_fd l))"
  unfolding keeps_next_def
proof (intro allI impI)
  fix n p assume n: "addressed_to (ul_peer l) (ul_fd l) n"
  from link_env_calls [of sendto strerror l a block n p] obtain calls
    where "snd (se_write (link_env sendto strerror l a block) n p) = n @ calls"
      and "set calls \<subseteq> {(ul_fd l, view p, take (sa_native_len (ul_peer l)) (sa_addr (ul_peer l)))}"
    by (metis prod.collapse)
  with n show "addressed_to (ul_peer l) (ul_fd l) (snd (se_write (link_env sendto strerror l a block) n p))"
    by (auto simp: addressed_to_def)
qed

lemma session_reach_next:
  "session_reach G E s0 s \<Longrightarrow> keeps_next E Q \<Longrightarrow> Q (cs_next s0) \<Longrightarrow> Q (cs_next s)"
  by (induction rule: session_reach.induct) (blast intro: session_step_next)+

section \<open>One peer\<close>

text \<open>The socket keeps its one peer, and the session is only touched by datagrams that come from this peer.\<close>

lemma node_receive_single:
  assumes "map fst (us_peers (nd_socket n)) = [k]" and "wf_sockaddr k"
    and "node_receive fuel G E k a (plen, buffer, addr) n = Some (r, n')"
  shows "map fst (us_peers (nd_socket n')) = [k]"
    and "nd_session n' = nd_session n \<or>
      0 \<le> plen \<and> SocketAddress_native addr = Ret k \<and>
      session_step fuel G E (OpRead (Packet_new a (take (nat plen) buffer) 0 (of_int plen))) (nd_session n) = Some (r, nd_session n')"
proof -
  obtain l where l: "us_peers (nd_socket n) = [(k, l)]" using assms(1) by auto
  have raised: "raised_by (nd_socket n) k = st_raised l" "raised_by ((nd_socket n)\<lparr>us_peers := [(k, l')]\<rparr>) k = st_raised l'" for l'
    using l assms(2) by (simp_all add: raised_by_def)
  have "map fst (us_peers (nd_socket n')) = [k] \<and> (nd_session n' = nd_session n \<or>
      0 \<le> plen \<and> SocketAddress_native addr = Ret k \<and>
      session_step fuel G E (OpRead (Packet_new a (take (nat plen) buffer) 0 (of_int plen))) (nd_session n) = Some (r, nd_session n'))"
    using assms(3) l raised peer_keys_ok_single [OF assms(2) _ l] wf_SocketAddress_native [of addr]
    by (auto simp: node_receive_def onPacketArrived_def UdpLink_propagate_def Let_def
        split: outcome.splits if_splits option.splits prod.splits)
  then show "map fst (us_peers (nd_socket n')) = [k]"
    and "nd_session n' = nd_session n \<or>
      0 \<le> plen \<and> SocketAddress_native addr = Ret k \<and>
      session_step fuel G E (OpRead (Packet_new a (take (nat plen) buffer) 0 (of_int plen))) (nd_session n) = Some (r, nd_session n')"
    by blast+
qed

lemma node_reach_single:
  assumes "node_reach G E k n0 n" and "wf_sockaddr k" and "map fst (us_peers (nd_socket n0)) = [k]"
  shows "map fst (us_peers (nd_socket n)) = [k]"
  using assms(1)
proof (induction rule: node_reach.induct)
  case (node_datagram n fuel a recv r n')
  obtain plen buffer addr where "recv = (plen, buffer, addr)" by (metis prod.collapse)
  with node_receive_single(1) [OF node_datagram.IH assms(2)] node_datagram.hyps(2) show ?case by blast
qed (simp_all add: assms(3))

text \<open>
  C5. A node is safe against its network. The node is a socket with one peer, whose link the session writes
  to. Whatever datagrams arrive, from whomever, in whatever order, whatever the system answers to the node's
  own calls, and whatever the program does with its session in between: a datagram touches the session only if
  it comes from the address of the peer; it makes the session hand a packet to its readers only after a
  handshake with a verified peer; and every call of \<^verbatim>\<open>sendto\<close> the node ever makes is over the descriptor of
  the link to the native address of the peer.
\<close>

theorem node_safe:
  assumes "authenticates G P" and "CryptoSession_new G (\<lambda>sent. sent) h [] = Ret (nd_session n0)"
    and "us_peers (nd_socket n0) = [(k, l)]" and "ul_peer l = k" and "wf_sockaddr k"
    and "node_reach G (link_env sendto strerror l b block) k n0 n"
    and "node_receive fuel G (link_env sendto strerror l b block) k a (plen, buffer, addr) n = Some (r, n')"
  shows "(nd_session n' \<noteq> nd_session n \<longrightarrow> 0 \<le> plen \<and> SocketAddress_native addr = Ret k)
    \<and> (st_raised (nd_session n') \<noteq> st_raised (nd_session n) \<longrightarrow> P (cs_session (nd_session n')))
    \<and> (cs_state (nd_session n') = Open \<longrightarrow> P (cs_session (nd_session n')))
    \<and> (\<forall>(fd, bytes, to)\<in>set (cs_next (nd_session n')). fd = ul_fd l \<and> to = take (sa_native_len k) (sa_addr k))"
proof -
  let ?E = "link_env sendto strerror l b block" and ?p = "Packet_new a (take (nat plen) buffer) 0 (of_int plen)"
  note reach = node_reach_session [OF assms(6)]
  have auth: "auth_inv P (nd_session n)" by (rule session_reach_auth [OF assms(1,2) reach])
  have "cs_next (nd_session n0) = []"
    using assms(2) by (cases "nd_session n0") (auto simp: CryptoSession_new_def Let_def split: option.splits)
  then have "addressed_to (ul_peer l) (ul_fd l) (cs_next (nd_session n0))"
    by (simp add: addressed_to_def)
  then have sent: "addressed_to (ul_peer l) (ul_fd l) (cs_next (nd_session n))"
    by (rule session_reach_next [OF reach link_env_keeps])
  have "map fst (us_peers (nd_socket n)) = [k]"
    by (rule node_reach_single [OF assms(6,5)]) (simp add: assms(3))
  from node_receive_single(2) [OF this assms(5,7)] show ?thesis
  proof (elim disjE conjE)
    assume from_peer: "0 \<le> plen" "SocketAddress_native addr = Ret k"
      and step: "session_step fuel G ?E (OpRead ?p) (nd_session n) = Some (r, nd_session n')"
    from session_step_auth [OF assms(1) step auth] session_step_next [OF link_env_keeps step sent] from_peer assms(4) show ?thesis
      by (simp add: auth_inv_def addressed_to_def)
  qed (use auth sent assms(4) in \<open>simp add: auth_inv_def addressed_to_def\<close>)
qed

text \<open>A node with one peer, and a system that takes every datagram.\<close>

definition demo_node :: "bool node" where
  "demo_node = \<lparr>nd_socket = demo_socket, nd_session = fresh_over []\<rparr>"

definition demo_sendto :: sendto where
  "demo_sendto fd d a j = (int (length d), 0)"

definition demo_env :: "datagram list stream_env" where
  "demo_env = link_env demo_sendto (\<lambda>_. []) (UdpLink_new 5 (demo_addr 1)) 9 (\<lambda>n. replicate n 0)"

definition demo_sent :: "datagram list" where
  "demo_sent = [(5, [4], take (sa_native_len (demo_addr 1)) (sa_addr (demo_addr 1)))]"

definition demo_sender :: "bool node" where
  "demo_sender = demo_node\<lparr>nd_session := opened_over demo_sent\<rparr>"

lemma demo_link:
  "UdpLink_write demo_sendto strerror l p
   = Some (Ret True, [(ul_fd l, view p, take (sa_native_len (ul_peer l)) (sa_addr (ul_peer l)))])"
  by (subst UdpLink_write_now) (simp_all add: interrupted_def demo_sendto_def send_result_def)

lemma demo_write:
  "se_write demo_env sent p = (Ret True, sent @ [(5, view p, take (sa_native_len (demo_addr 1)) (sa_addr (demo_addr 1)))])"
  by (simp add: demo_env_def link_env_def demo_link UdpLink_new_def)

text \<open>The node opens its session and writes one byte.\<close>

lemma demo_node_sends: "node_reach null_gnutls demo_env (demo_addr 1) demo_node demo_sender"
proof -
  have "node_reach null_gnutls demo_env (demo_addr 1) demo_node (demo_node\<lparr>nd_session := opened_over []\<rparr>)"
    by (rule node_operation [OF node_start, where fuel = 1 and op = OpOpen and r = "Ret ()"])
      (use open_over [of demo_env "[]"] in \<open>simp_all add: demo_node_def\<close>)
  moreover have "session_step 1 null_gnutls demo_env (OpWrite (Packet_new 1 [4] 0 1)) (opened_over []) = Some (Ret (), opened_over demo_sent)"
    by (simp add: CryptoSession_write_def call_gnutls_def null_gnutls_def CryptoSession_push_def opened_over_def demo_write demo_sent_def
        view_simps E_AGAIN_def)
  ultimately show ?thesis
    using node_operation [of null_gnutls demo_env "demo_addr 1" demo_node "demo_node\<lparr>nd_session := opened_over []\<rparr>" 1
        "OpWrite (Packet_new 1 [4] 0 1)" "Ret ()" "opened_over demo_sent"]
    by (simp add: demo_sender_def)
qed

lemma demo_node_receive:
  "\<exists>n'. node_receive 1 null_gnutls demo_env (demo_addr 1) 9 (2, [7, 8, 0], sa_addr (demo_addr 1)) demo_sender
       = Some (UB DoubleFree, n') \<and> nd_session n' = (opened_over demo_sent)\<lparr>st_raised := [Packet_new 2 [7, 8] 0 2]\<rparr>"
proof -
  have "onPacketArrived 9 (2, [7, 8, 0], sa_addr (demo_addr 1)) demo_socket =
      (Ret (), demo_socket\<lparr>us_peers := [(demo_addr 1, UdpLink_propagate (UdpLink_new 5 (demo_addr 1)) (Packet_new 9 [7, 8] 0 2))]\<rparr>)"
    using onPacketArrived_peer [OF demo_socket_simps(1) wf_demo native_roundtrip [OF wf_demo], of 2 9 "[7, 8, 0]"] by simp
  then show ?thesis
    using recv_over [of demo_env 9 demo_sent]
    by (simp add: node_receive_def demo_node_def demo_sender_def raised_by_def demo_socket_simps wf_demo UdpLink_propagate_def UdpLink_new_def)
qed

theorem node_safe_witness:
  "\<exists>n r n'. node_reach null_gnutls demo_env (demo_addr 1) demo_node n
     \<and> node_receive 1 null_gnutls demo_env (demo_addr 1) 9 (2, [7, 8, 0], sa_addr (demo_addr 1)) n = Some (r, n')
     \<and> st_raised (nd_session n') \<noteq> st_raised (nd_session n) \<and> cs_session (nd_session n')
     \<and> cs_next (nd_session n') = [(5, [4], take (sa_native_len (demo_addr 1)) (sa_addr (demo_addr 1)))]
     \<and> (\<forall>(fd, bytes, to)\<in>set (cs_next (nd_session n')).
          fd = 5 \<and> to = take (sa_native_len (demo_addr 1)) (sa_addr (demo_addr 1)))"
proof -
  obtain n' where n': "node_receive 1 null_gnutls demo_env (demo_addr 1) 9 (2, [7, 8, 0], sa_addr (demo_addr 1)) demo_sender
       = Some (UB DoubleFree, n')" "nd_session n' = (opened_over demo_sent)\<lparr>st_raised := [Packet_new 2 [7, 8] 0 2]\<rparr>"
    using demo_node_receive by blast
  have "CryptoSession_new null_gnutls (\<lambda>sent. sent) (Some False) [] = Ret (nd_session demo_node)"
    using new_over [of "[]"] by (simp add: demo_node_def)
  moreover have "us_peers (nd_socket demo_node) = [(demo_addr 1, UdpLink_new 5 (demo_addr 1))]"
    by (simp add: demo_node_def demo_socket_simps)
  moreover have "ul_peer (UdpLink_new 5 (demo_addr 1)) = demo_addr 1" by (simp add: UdpLink_new_def)
  ultimately have "\<forall>(fd, bytes, to)\<in>set (cs_next (nd_session n')).
      fd = ul_fd (UdpLink_new 5 (demo_addr 1)) \<and> to = take (sa_native_len (demo_addr 1)) (sa_addr (demo_addr 1))"
    and "st_raised (nd_session n') \<noteq> st_raised (nd_session demo_sender) \<longrightarrow> cs_session (nd_session n')"
    using node_safe [OF authenticates_null _ _ _ wf_demo demo_node_sends [unfolded demo_env_def] n'(1) [unfolded demo_env_def]]
    by blast+
  with demo_node_sends n' show ?thesis
    by (intro exI [of _ demo_sender] exI [of _ "UB DoubleFree"] exI [of _ n'])
      (simp add: opened_over_def UdpLink_new_def demo_sender_def demo_sent_def)
qed

text \<open>A datagram of the peer of an open link is one packet read by the session.\<close>

lemma node_receive_peer:
  assumes "us_peers (nd_socket n) = [(k, l)]" and "wf_sockaddr k" and "SocketAddress_native addr = Ret k" and "0 \<le> plen"
    and "ul_state l \<noteq> LinkClosed"
  shows "map_option (\<lambda>(r, n'). (r, nd_session n')) (node_receive fuel G E k a (plen, buffer, addr) n)
    = session_step fuel G E (OpRead (Packet_new a (take (nat plen) buffer) 0 (of_int plen))) (nd_session n)"
proof -
  let ?q = "Packet_new a (take (nat plen) buffer) 0 (of_int plen)"
  have "raised_by (nd_socket n) k = st_raised l" "raised_by ((nd_socket n)\<lparr>us_peers := [(k, l')]\<rparr>) k = st_raised l'" for l'
    using assms(1,2) by (simp_all add: raised_by_def)
  with assms(5) show ?thesis
    by (cases "CryptoSession_readPacket fuel G E (nd_session n) ?q")
      (auto simp: node_receive_def onPacketArrived_peer [OF assms(1-4)] UdpLink_propagate_def)
qed

text \<open>
  C16. From the wire to the session: a datagram from the peer of an open link is one \<^verbatim>\<open>readPacket\<close> of the
  session with a packet that shows exactly the datagram's bytes, and the node's result is the session's;
  a closed link, a failed \<^verbatim>\<open>recvfrom\<close> and a socket without links leave the session alone, and a datagram from
  any other address, of whatever family, is undefined behaviour.
\<close>

theorem node_receives:
  assumes "us_peers (nd_socket n) = [(k, l)]" and "wf_sockaddr k" and "SocketAddress_native addr = Ret k"
    and "0 \<le> plen" and "nat plen \<le> length buffer" and "length buffer \<le> 65536"
    and "wf_sockaddr other" and "other \<noteq> k"
  shows "\<exists>q. wf_packet q \<and> view q = take (nat plen) buffer
    \<and> (ul_state l \<noteq> LinkClosed \<longrightarrow>
        map_option (\<lambda>(r, n'). (r, nd_session n')) (node_receive fuel G E k a (plen, buffer, addr) n)
          = session_step fuel G E (OpRead q) (nd_session n))
    \<and> (ul_state l = LinkClosed \<longrightarrow> node_receive fuel G E k a (plen, buffer, addr) n = Some (Ret (), n))
    \<and> node_receive fuel G E k a (- 1, buffer, addr) n = Some (Ret (), n)
    \<and> node_receive fuel G E k a (plen, buffer, sa_addr other) n = Some (UB BadCompare, n)"
proof -
  let ?q = "Packet_new a (take (nat plen) buffer) 0 (of_int plen)"
  note peer = onPacketArrived_peer [OF assms(1-4), of a buffer]
  have same: "n\<lparr>nd_socket := (nd_socket n)\<lparr>us_peers := [(k, l)]\<rparr>\<rparr> = n" "n\<lparr>nd_socket := nd_socket n\<rparr> = n"
    using assms(1) by (cases n; cases "nd_socket n", simp)+
  have old: "raised_by (nd_socket n) k = st_raised l"
    and new: "raised_by ((nd_socket n)\<lparr>us_peers := [(k, l')]\<rparr>) k = st_raised l'" for l'
    using assms(1,2) by (simp_all add: raised_by_def)
  have "map_option (\<lambda>(r, n'). (r, nd_session n')) (node_receive fuel G E k a (plen, buffer, addr) n)
      = session_step fuel G E (OpRead ?q) (nd_session n)" if "ul_state l \<noteq> LinkClosed"
    by (rule node_receive_peer [OF assms(1-4) that])
  moreover have "node_receive fuel G E k a (plen, buffer, addr) n = Some (Ret (), n)" if "ul_state l = LinkClosed"
    using that by (simp add: node_receive_def peer old new UdpLink_propagate_def same)
  moreover have "node_receive fuel G E k a (- 1, buffer, addr) n = Some (Ret (), n)"
    by (simp add: node_receive_def onPacketArrived_def same)
  moreover have "node_receive fuel G E k a (plen, buffer, sa_addr other) n = Some (UB BadCompare, n)"
    using onPacketArrived_other [OF assms(1,2,7,8) native_roundtrip [OF assms(7)] assms(4)]
    by (simp add: node_receive_def same)
  ultimately show ?thesis
    using arrived_packet [OF assms(4-6), of a] by blast
qed

theorem node_receives_witness:
  "\<exists>q. view q = [7, 8]
     \<and> map_option (\<lambda>(r, n'). (r, nd_session n'))
         (node_receive 1 null_gnutls demo_env (demo_addr 1) 9 (2, [7, 8, 0], sa_addr (demo_addr 1)) demo_node)
       = session_step 1 null_gnutls demo_env (OpRead q) (nd_session demo_node)
     \<and> node_receive 1 null_gnutls demo_env (demo_addr 1) 9 (2, [7, 8, 0], sa_addr (demo_addr 2)) demo_node = Some (UB BadCompare, demo_node)"
proof -
  have "us_peers (nd_socket demo_node) = [(demo_addr 1, UdpLink_new 5 (demo_addr 1))]"
    by (simp add: demo_node_def demo_socket_simps)
  from node_receives [OF this wf_demo native_roundtrip [OF wf_demo], of 2 "[7, 8, 0]" "demo_addr 2" 1 null_gnutls demo_env 9]
  show ?thesis by (auto simp: wf_demo family_demo demo_addr_neq UdpLink_new_def)
qed

end
