(* ===== verification/Record_Layer.thy ===== *)
theory Record_Layer
  imports Node
begin

text \<open>
  The record layer that a session relies on, and what the program adds to it: the bytes of a write are what
  the library gets, the datagrams of the library are what the link gets, the datagrams of the link are what
  the library gets, and the records of the library are what the readers get.

  GnuTLS is an argument, so the protection of records is a hypothesis (\<open>record_laws\<close>). It speaks of the data of
  the authentic records that a datagram holds, in the direction of the session and in the opposite one, and of
  what the library keeps in the handle between two calls.
\<close>

section \<open>What a library call conveys\<close>

record 'g record_layer =
  rl_out :: "byte list \<Rightarrow> byte list set"
  rl_in :: "byte list \<Rightarrow> byte list set"
  rl_unsent :: "'g \<Rightarrow> byte list set"
  rl_unread :: "'g \<Rightarrow> byte list set"

text \<open>
  A weakest precondition for trees of callbacks: every datagram that the call pushes holds only records
  of \<open>S\<close>, and when it returns \<open>v\<close> after it pulled datagrams whose records, with those known before, are \<open>R\<close>, then
  \<open>Q v R\<close>.
\<close>

primrec conveys ::
  "'r gcall \<Rightarrow> 'g record_layer \<Rightarrow> byte list set \<Rightarrow> ('r \<Rightarrow> byte list set \<Rightarrow> bool) \<Rightarrow> byte list set \<Rightarrow> bool" where
  "conveys (Done r) = (\<lambda>L S Q R. Q r R)"
| "conveys (Pull n k) = (\<lambda>L S Q R. \<forall>v d. conveys (k (v, d)) L S Q (R \<union> rl_in L d))"
| "conveys (PullTimeout ms k) = (\<lambda>L S Q R. \<forall>v. conveys (k v) L S Q R)"
| "conveys (Push d k) = (\<lambda>L S Q R. rl_out L d \<subseteq> S \<and> (\<forall>v. conveys (k v) L S Q R))"
| "conveys (VecPush ds k) = (\<lambda>L S Q R. rl_out L (concat ds) \<subseteq> S \<and> (\<forall>v. conveys (k v) L S Q R))"

definition handle_laws :: "'g record_layer \<Rightarrow> 'g \<Rightarrow> byte list set \<Rightarrow> 'g \<Rightarrow> byte list set \<Rightarrow> bool" where
  "handle_laws L g new g' R \<longleftrightarrow> rl_unsent L g' \<subseteq> rl_unsent L g \<union> new \<and> rl_unread L g' \<subseteq> R"

text \<open>
  What a record layer promises: a datagram that is cut short holds no other records, an empty
  one none at all; a call sends only
  records with data that was passed to \<^verbatim>\<open>gnutls_record_send\<close>, now or earlier, and keeps no other; what
  \<^verbatim>\<open>gnutls_record_recv\<close> returns is the data of an authentic record that was pulled, now or earlier, and
  fits the buffer.
\<close>

definition record_laws :: "'g gnutls \<Rightarrow> 'g record_layer \<Rightarrow> bool" where
  "record_laws G L \<longleftrightarrow>
     (\<forall>n x. rl_out L (take n x) \<subseteq> rl_out L x) \<and> (\<forall>n x. rl_in L (take n x) \<subseteq> rl_in L x) \<and> rl_in L [] = {} \<and>
     (\<forall>g. conveys (g_handshake G g) L (rl_unsent L g) (\<lambda>(v, g'). handle_laws L g {} g') (rl_unread L g)) \<and>
     (\<forall>g. conveys (g_rehandshake G g) L (rl_unsent L g) (\<lambda>(v, g'). handle_laws L g {} g') (rl_unread L g)) \<and>
     (\<forall>g. conveys (g_bye G g) L (rl_unsent L g) (\<lambda>(v, g'). handle_laws L g {} g') (rl_unread L g)) \<and>
     (\<forall>g d. conveys (g_record_send G g d) L (rl_unsent L g \<union> {d}) (\<lambda>(v, g'). handle_laws L g {d} g') (rl_unread L g)) \<and>
     (\<forall>g. conveys (g_record_recv G g (of_nat bufferSize)) L (rl_unsent L g)
        (\<lambda>((ret, d), g') R. handle_laws L g {} g' R \<and> (0 < ret \<longrightarrow> ret = int (length d) \<and> length d \<le> bufferSize \<and> d \<in> R))
        (rl_unread L g))"

section \<open>The callbacks\<close>

text \<open>
  \<open>obs\<close> are the datagrams that the stream below has been given (\<open>observes\<close>), \<open>W\<close> is the data that may have been sent, \<open>V\<close> the data that may have been received. The packets handed to
  the readers are the part that remains true after undefined behaviour.
\<close>

definition raised_within :: "byte list set \<Rightarrow> ('g, 'n) session \<Rightarrow> bool" where
  "raised_within V s \<longleftrightarrow> (\<forall>p\<in>set (st_raised s). wf_packet p \<and> view p \<in> V)"

definition packets_within ::
  "'g record_layer \<Rightarrow> ('n \<Rightarrow> byte list set) \<Rightarrow> byte list set \<Rightarrow> byte list set \<Rightarrow> ('g, 'n) session \<Rightarrow> bool" where
  "packets_within L obs W V s \<longleftrightarrow> raised_within V s \<and> (\<forall>x\<in>obs (cs_next s). rl_out L x \<subseteq> W)
     \<and> (case cs_currentPacket s of None \<Rightarrow> True | Some p \<Rightarrow> rl_in L (view p) \<subseteq> V)"

definition conveyed ::
  "'g record_layer \<Rightarrow> ('n \<Rightarrow> byte list set) \<Rightarrow> byte list set \<Rightarrow> byte list set \<Rightarrow> ('g, 'n) session \<Rightarrow> bool" where
  "conveyed L obs W V s \<longleftrightarrow> packets_within L obs W V s \<and> rl_unsent L (cs_session s) \<subseteq> W \<and> rl_unread L (cs_session s) \<subseteq> V"

lemma raised_core: "same_core s s' \<Longrightarrow> raised_within V s' = raised_within V s"
  by (simp add: same_core_def raised_within_def)

lemma packets_core:
  "same_core s s' \<Longrightarrow> cs_next s' = cs_next s \<Longrightarrow> cs_currentPacket s' = cs_currentPacket s
     \<Longrightarrow> packets_within L obs W V s' = packets_within L obs W V s"
  by (simp add: packets_within_def raised_core)

lemma pull_within:
  assumes "record_laws G L" and "CryptoSession_pull s n = (Ret (v, d), s')" and "packets_within L obs W V s"
  shows "packets_within L obs W V s' \<and> rl_in L d \<subseteq> V"
  using pull_prefix [OF assms(2)]
proof (elim disjE exE conjE)
  fix p k
  assume *: "cs_currentPacket s = Some p" "d = take k (view p)" "s' = s\<lparr>cs_currentPacket := None\<rparr>"
  have "rl_in L (take k (view p)) \<subseteq> rl_in L (view p)" using assms(1) unfolding record_laws_def by blast
  with * assms(3) show ?thesis by (auto simp: packets_within_def raised_within_def)
qed (use assms(1,3) in \<open>simp add: record_laws_def\<close>)

lemma write_within:
  assumes "observes E obs" and "packets_within L obs W V s" and "rl_out L (view p) \<subseteq> W" and "se_write E (cs_next s) p = (r, n)"
  shows "packets_within L obs W V (s\<lparr>cs_next := n\<rparr>)"
proof -
  have "obs n \<subseteq> insert (view p) (obs (cs_next s))"
    using assms(1,4) unfolding observes_def by (metis snd_conv)
  then have "x = view p \<or> x \<in> obs (cs_next s)" if "x \<in> obs n" for x using that by blast
  with assms(2,3) show ?thesis by (simp add: packets_within_def raised_within_def) blast
qed

lemma push_within:
  assumes "record_laws G L" and "observes E obs" and "CryptoSession_push E s d = (r, s')"
    and "packets_within L obs W V s" and "rl_out L d \<subseteq> W"
  shows "packets_within L obs W V s'"
proof -
  let ?p = "Packet_new (se_addr E) d 0 (of_nat (length d))"
  obtain x n where w: "se_write E (cs_next s) ?p = (x, n)" by fastforce
  have "rl_out L (view ?p) \<subseteq> W"
    using assms(1,5) unfolding record_laws_def by (auto simp: view_simps)
  from write_within [OF assms(2,4) this w] assms(3) w show ?thesis
    by (simp add: CryptoSession_push_def)
qed

lemma vec_push_within:
  assumes "observes E obs" and "CryptoSession_vec_push E s ds = (r, s')" and "\<And>u. r \<noteq> UB u"
    and "packets_within L obs W V s" and "rl_out L (concat ds) \<subseteq> W"
  shows "packets_within L obs W V s'"
proof -
  have ds: "ds = []" using vec_push_defined [OF assms(2,3)] .
  let ?p = "Packet_new (se_addr E) (se_block E 0) 0 0"
  obtain x n where w: "se_write E (cs_next s) ?p = (x, n)" by fastforce
  have "rl_out L (view ?p) \<subseteq> W" using assms(5) ds by (simp add: view_simps)
  from write_within [OF assms(1,4) this w] assms(2) w ds show ?thesis
    by (simp add: CryptoSession_vec_push_def Stream_write_range_def Stream_gather_def)
qed

section \<open>Library calls\<close>

lemma run_gcall_conveys:
  assumes "record_laws G L" and "observes E obs" and "S \<subseteq> W"
  shows "run_gcall t E s = (r, s') \<Longrightarrow> conveys t L S Q R \<Longrightarrow> R \<subseteq> V \<Longrightarrow> packets_within L obs W V s
    \<Longrightarrow> (case r of UB u \<Rightarrow> raised_within V s' | Throw e \<Rightarrow> packets_within L obs W V s'
         | Ret v \<Rightarrow> packets_within L obs W V s' \<and> (\<exists>R'\<subseteq>V. Q v R'))"
proof (induction t arbitrary: s R)
  case (Done x)
  then show ?case by (auto intro: exI [of _ R])
next
  case (Pull n k)
  obtain x s1 where c: "CryptoSession_pull s n = (x, s1)" by fastforce
  show ?case
  proof (cases x)
    case (Ret vd)
    obtain v d where vd: "vd = (v, d)" by fastforce
    note w = pull_within [OF assms(1) c [unfolded Ret vd] Pull.prems(4)]
    show ?thesis
      by (rule Pull.IH [of "k (v, d)" s1 "R \<union> rl_in L d"]) (use Pull.prems c Ret vd w in auto)
  qed (use Pull.prems c in \<open>auto simp: CryptoSession_pull_def packets_within_def Let_def split: option.splits if_splits\<close>)
next
  case (PullTimeout ms k)
  show ?case
    by (rule PullTimeout.IH [of "k (CryptoSession_pull_timeout s ms)" s R]) (use PullTimeout.prems in auto)
next
  case (Push d k)
  obtain x s1 where c: "CryptoSession_push E s d = (x, s1)" by fastforce
  have "rl_out L d \<subseteq> W" using Push.prems(2) assms(3) by auto
  then have w: "packets_within L obs W V s1" by (rule push_within [OF assms(1,2) c Push.prems(4)])
  show ?case
  proof (cases x)
    case (Ret v)
    show ?thesis by (rule Push.IH [of "k v" s1 R]) (use Push.prems c Ret w in auto)
  qed (use Push.prems c w in \<open>auto simp: packets_within_def\<close>)
next
  case (VecPush ds k)
  obtain x s1 where c: "CryptoSession_vec_push E s ds = (x, s1)" by fastforce
  have out: "rl_out L (concat ds) \<subseteq> W" using VecPush.prems(2) assms(3) by auto
  show ?case
  proof (cases x)
    case (Ret v)
    have "packets_within L obs W V s1" by (rule vec_push_within [OF assms(2) c _ VecPush.prems(4) out]) (simp add: Ret)
    then show ?thesis by (intro VecPush.IH [of "k v" s1 R]) (use VecPush.prems c Ret in auto)
  next
    case (Throw e)
    have "packets_within L obs W V s1" by (rule vec_push_within [OF assms(2) c _ VecPush.prems(4) out]) (simp add: Throw)
    with VecPush.prems c Throw show ?thesis by auto
  next
    case (UB u)
    with VecPush.prems c callbacks_core(3) [OF c] show ?thesis by (auto simp: packets_within_def raised_core)
  qed
qed

lemma call_conveys:
  assumes "record_laws G L" and "observes E obs" and "S \<subseteq> W" and "conveyed L obs W V s"
    and "conveys t L S (\<lambda>(v, g') R. handle_laws L (cs_session s) S' g' R \<and> Q v R) (rl_unread L (cs_session s))"
    and "S' \<subseteq> W" and "call_gnutls E t s = (r, s')"
  shows "holds_after (conveyed L obs W V) (raised_within V) (r, s') \<and> (\<forall>v. r = Ret v \<longrightarrow> (\<exists>R\<subseteq>V. Q v R))"
proof -
  obtain x s1 where c: "run_gcall t E s = (x, s1)" by fastforce
  have start: "rl_unread L (cs_session s) \<subseteq> V" "packets_within L obs W V s" using assms(4) by (simp_all add: conveyed_def)
  note run = run_gcall_conveys [OF assms(1-3) c assms(5) start]
  have core: "cs_session s1 = cs_session s" using run_gcall_core [OF c] by (simp add: same_core_def)
  show ?thesis
  proof (cases x)
    case (Ret vg)
    obtain v g where vg: "vg = (v, g)" by fastforce
    from run Ret vg obtain R where R: "R \<subseteq> V" "handle_laws L (cs_session s) S' g R" "Q v R" "packets_within L obs W V s1" by auto
    have "rl_unsent L g \<subseteq> W" "rl_unread L g \<subseteq> V"
      using R(1,2) assms(4,6) unfolding handle_laws_def conveyed_def by blast+
    moreover have "packets_within L obs W V (s1\<lparr>cs_session := g\<rparr>) = packets_within L obs W V s1"
      by (simp add: packets_within_def raised_within_def)
    ultimately show ?thesis
      using R assms(7) c Ret vg by (auto simp: call_gnutls_def conveyed_def)
  qed (use run assms(4,7) c core in \<open>auto simp: call_gnutls_def conveyed_def\<close>)
qed

section \<open>Sessions\<close>

lemma view_delivered:
  "length d \<le> bufferSize \<Longrightarrow> view (delivered E (int (length d)) d) = d \<and> wf_packet (delivered E (int (length d)) d)"
  by (auto simp: delivered_def view_simps memcpy_def unat_of_nat_size bufferSize_def intro!: wf_Packet_new)

lemma record_lawsD:
  assumes "record_laws G L"
  shows "conveys (g_handshake G g) L (rl_unsent L g) (\<lambda>(v, g') R. handle_laws L g {} g' R \<and> True) (rl_unread L g)"
    and "conveys (g_rehandshake G g) L (rl_unsent L g) (\<lambda>(v, g') R. handle_laws L g {} g' R \<and> True) (rl_unread L g)"
    and "conveys (g_bye G g) L (rl_unsent L g) (\<lambda>(v, g') R. handle_laws L g {} g' R \<and> True) (rl_unread L g)"
    and "conveys (g_record_send G g d) L (rl_unsent L g \<union> {d}) (\<lambda>(v, g') R. handle_laws L g {d} g' R \<and> True) (rl_unread L g)"
    and "conveys (g_record_recv G g (of_nat bufferSize)) L (rl_unsent L g) (\<lambda>(v, g') R. handle_laws L g {} g' R
      \<and> (case v of (ret, d) \<Rightarrow> 0 < ret \<longrightarrow> ret = int (length d) \<and> length d \<le> bufferSize \<and> d \<in> R)) (rl_unread L g)"
  using assms by (simp_all add: record_laws_def case_prod_unfold)

lemma conveyed_call:
  assumes "record_laws G L" and "observes E obs" and "conveyed L obs W V s" and "S \<subseteq> W"
    and "conveys t L (rl_unsent L (cs_session s) \<union> S) (\<lambda>(v, g') R. handle_laws L (cs_session s) S g' R \<and> Q v R) (rl_unread L (cs_session s))"
  shows "holds_after (conveyed L obs W V) (raised_within V) (call_gnutls E t s)"
    and "call_gnutls E t s = (Ret v, s') \<Longrightarrow> \<exists>R\<subseteq>V. Q v R"
proof -
  have "rl_unsent L (cs_session s) \<union> S \<subseteq> W" using assms(3,4) by (simp add: conveyed_def)
  note call = call_conveys [OF assms(1,2) this assms(3,5,4)]
  show "holds_after (conveyed L obs W V) (raised_within V) (call_gnutls E t s)"
    using call [of "fst (call_gnutls E t s)" "snd (call_gnutls E t s)"] by simp
  show "call_gnutls E t s = (Ret v, s') \<Longrightarrow> \<exists>R\<subseteq>V. Q v R" using call by blast
qed

lemma conveyed_inv:
  assumes "record_laws G L" and "observes E obs"
  shows "session_inv G E (conveyed L obs W V) (raised_within V)"
proof (rule session_invI)
  note laws = record_lawsD [OF assms(1)]
  note call = conveyed_call [OF assms, where S = "{}", simplified]
  fix s assume s: "conveyed L obs W V s"
  show "raised_within V s" using s by (simp add: conveyed_def packets_within_def)
  show "conveyed L obs W V (s\<lparr>cs_state := st, cs_changed := c\<rparr>)" for st c
    using s by (simp add: conveyed_def packets_within_def raised_within_def)
  show "holds_after (conveyed L obs W V) (raised_within V) (call_gnutls E (g_handshake G (cs_session s)) s)"
    by (rule call(1) [OF s laws(1)])
  show "holds_after (conveyed L obs W V) (raised_within V) (call_gnutls E (g_rehandshake G (cs_session s)) s)"
    by (rule call(1) [OF s laws(2)])
  show "holds_after (conveyed L obs W V) (raised_within V) (call_gnutls E (g_bye G (cs_session s)) s)"
    by (rule call(1) [OF s laws(3)])
  show recv: "holds_after (conveyed L obs W V) (raised_within V) (call_gnutls E (g_record_recv G (cs_session s) (of_nat bufferSize)) s)"
    by (rule call(1) [OF s laws(5)])
  fix s' ret d
  assume c: "call_gnutls E (g_record_recv G (cs_session s) (of_nat bufferSize)) s = (Ret (ret, d), s')" and "0 < ret"
  with call(2) [OF s laws(5) c] have d: "ret = int (length d)" "length d \<le> bufferSize" "d \<in> V" by auto
  from recv c have "raised_within V s'" by (simp add: conveyed_def packets_within_def)
  with d view_delivered [OF d(2)] show "raised_within V (CryptoSession_propagate s' (delivered E ret d))"
    by (auto simp: raised_within_def CryptoSession_propagate_def)
qed

text \<open>One operation of a session: what a write passes to the library may be sent, what a packet holds may be received.\<close>

fun written_by :: "session_op \<Rightarrow> ('g, 'n) session \<Rightarrow> byte list list" where
  "written_by (OpWrite p) s = (if cs_state s = Open then [view p] else [])"
| "written_by _ s = []"

fun received_by :: "'g record_layer \<Rightarrow> session_op \<Rightarrow> byte list set" where
  "received_by L (OpRead p) = rl_in L (view p)"
| "received_by L _ = {}"

lemma session_step_conveys:
  assumes "record_laws G L" and "observes E obs" and "session_step fuel G E op s = Some x" and "conveyed L obs W V s"
    and "set (written_by op s) \<subseteq> W" and "received_by L op \<subseteq> V"
  shows "holds_after (conveyed L obs W V) (raised_within V) x"
proof (rule session_step_inv [OF conveyed_inv [OF assms(1,2)] assms(4) _ _ assms(3)])
  show "conveyed L obs W V (s\<lparr>cs_currentPacket := Some p\<rparr>)" if "op = OpRead p" for p
    using that assms(4,6) by (simp add: conveyed_def packets_within_def raised_within_def)
  show "holds_after (conveyed L obs W V) (raised_within V) (call_gnutls E (g_record_send G (cs_session s) (view p)) s)"
    if "op = OpWrite p" "cs_state s = Open" for p
    by (rule conveyed_call(1) [OF assms(1,2,4) _ record_lawsD(4) [OF assms(1)]]) (use that assms(5) in simp)
qed

lemma conveyed_mono: "conveyed L obs W V s \<Longrightarrow> W \<subseteq> W' \<Longrightarrow> V \<subseteq> V' \<Longrightarrow> conveyed L obs W' V' s"
  unfolding conveyed_def packets_within_def raised_within_def by (auto split: option.splits) blast+

end
