(* ===== verification/Node_Pair.thy ===== *)
theory Node_Pair
  imports Record_Layer
begin

text \<open>
  Two nodes, each a session over the link of a socket, and a network between the sockets that loses,
  duplicates, reorders and invents datagrams. What the network cannot do is invent authentic records, as far
  as the record layer is one (\<open>record_laws\<close>).
\<close>

section \<open>The system\<close>

text \<open>The two nodes are indexed by a truth value; \<open>pr_written\<close> is what each open session was given to write.\<close>

record 'g pair =
  pr_node :: "bool \<Rightarrow> 'g node"
  pr_written :: "bool \<Rightarrow> byte list list"

text \<open>A datagram that may arrive at node \<open>i\<close>: its authentic records are some that the other node has sent.\<close>

definition unforged :: "(bool \<Rightarrow> 'g record_layer) \<Rightarrow> 'g pair \<Rightarrow> bool \<Rightarrow> byte list \<Rightarrow> bool" where
  "unforged L pr i x \<longleftrightarrow>
     rl_in (L i) x \<subseteq> (\<Union>y\<in>sent_datagrams (cs_next (nd_session (pr_node pr (\<not> i)))). rl_out (L (\<not> i)) y)"

text \<open>
  A run: the program calls operations of its sessions, which stay where they were constructed, and datagrams
  arrive. Nothing is said after undefined behaviour.
\<close>

inductive pair_reach ::
  "(bool \<Rightarrow> 'g gnutls) \<Rightarrow> (bool \<Rightarrow> datagram list stream_env) \<Rightarrow> (bool \<Rightarrow> socket_address) \<Rightarrow> (bool \<Rightarrow> 'g record_layer)
     \<Rightarrow> 'g pair \<Rightarrow> 'g pair \<Rightarrow> bool"
  for G E K L pr0 where
  pair_start: "pair_reach G E K L pr0 pr0"
| pair_operation: "pair_reach G E K L pr0 pr \<Longrightarrow> (\<And>p. op \<noteq> OpRead p)
    \<Longrightarrow> session_step fuel (G i) (E i) op (nd_session (pr_node pr i)) = Some (r, s) \<Longrightarrow> (\<And>u. r \<noteq> UB u)
    \<Longrightarrow> pair_reach G E K L pr0
         (pr\<lparr>pr_node := (pr_node pr)(i := (pr_node pr i)\<lparr>nd_session := s\<rparr>),
             pr_written := (pr_written pr)(i := pr_written pr i @ written_by op (nd_session (pr_node pr i)))\<rparr>)"
| pair_datagram: "pair_reach G E K L pr0 pr \<Longrightarrow> unforged L pr i (take (nat plen) buffer)
    \<Longrightarrow> node_receive fuel (G i) (E i) (K i) a (plen, buffer, addr) (pr_node pr i) = Some (r, n) \<Longrightarrow> (\<And>u. r \<noteq> UB u)
    \<Longrightarrow> pair_reach G E K L pr0 (pr\<lparr>pr_node := (pr_node pr)(i := n)\<rparr>)"

section \<open>Steps\<close>

text \<open>What each node may have sent is what its session was given to write, what it may have received what the other was.\<close>

definition pair_inv ::
  "(bool \<Rightarrow> socket_address) \<Rightarrow> (bool \<Rightarrow> 'g record_layer) \<Rightarrow> 'g pair \<Rightarrow> bool" where
  "pair_inv K L pr \<longleftrightarrow> (\<forall>i.
     wf_sockaddr (K i) \<and> map fst (us_peers (nd_socket (pr_node pr i))) = [K i]
     \<and> conveyed (L i) sent_datagrams (set (pr_written pr i)) (set (pr_written pr (\<not> i))) (nd_session (pr_node pr i)))"

lemma pair_invD:
  assumes "pair_inv K L pr"
  shows "wf_sockaddr (K i)" and "map fst (us_peers (nd_socket (pr_node pr i))) = [K i]"
    and "conveyed (L i) sent_datagrams (set (pr_written pr i)) (set (pr_written pr (\<not> i))) (nd_session (pr_node pr i))"
  using assms by (simp_all add: pair_inv_def)

lemma pair_inv_upd:
  assumes inv: "pair_inv K L pr" and "map fst (us_peers (nd_socket n)) = [K i]"
    and "conveyed (L i) sent_datagrams (set bs) (set (pr_written pr (\<not> i))) (nd_session n)" and "set (pr_written pr i) \<subseteq> set bs"
  shows "pair_inv K L (pr\<lparr>pr_node := (pr_node pr)(i := n), pr_written := (pr_written pr)(i := bs)\<rparr>)"
  unfolding pair_inv_def
proof (intro allI conjI)
  fix j
  let ?pr = "pr\<lparr>pr_node := (pr_node pr)(i := n), pr_written := (pr_written pr)(i := bs)\<rparr>"
  show "wf_sockaddr (K j)" by (rule pair_invD(1) [OF inv])
  show "map fst (us_peers (nd_socket (pr_node ?pr j))) = [K j]"
    using assms(2) pair_invD(2) [OF inv, of j] by (cases "j = i"; simp)+
  show "conveyed (L j) sent_datagrams (set (pr_written ?pr j)) (set (pr_written ?pr (\<not> j))) (nd_session (pr_node ?pr j))"
  proof (cases "j = i")
    case True
    with assms(3) show ?thesis by simp
  next
    case False
    then have i: "i = (\<not> j)" by auto
    with conveyed_mono [OF pair_invD(3) [OF inv, of j] order_refl, of "set bs"] assms(4) show ?thesis by simp
  qed
qed

text \<open>The records of a datagram that arrives are records that the other session was given to write.\<close>

lemma unforged_written:
  assumes "pair_inv K L pr" and "unforged L pr i x"
  shows "rl_in (L i) x \<subseteq> set (pr_written pr (\<not> i))"
proof -
  have "\<forall>y\<in>sent_datagrams (cs_next (nd_session (pr_node pr (\<not> i)))). rl_out (L (\<not> i)) y \<subseteq> set (pr_written pr (\<not> i))"
    using pair_invD(3) [OF assms(1), of "\<not> i"] by (simp add: conveyed_def packets_within_def)
  with assms(2) show ?thesis unfolding unforged_def by blast
qed

lemma pair_receive:
  assumes inv: "pair_inv K L pr" and laws: "record_laws (G i) (L i)" and obs: "observes (E i) sent_datagrams"
    and "unforged L pr i (take (nat plen) buffer)"
    and recv: "node_receive fuel (G i) (E i) (K i) a (plen, buffer, addr) (pr_node pr i) = Some (r, n)"
  shows "map fst (us_peers (nd_socket n)) = [K i] \<and>
    holds_after (conveyed (L i) sent_datagrams (set (pr_written pr i)) (set (pr_written pr (\<not> i))))
      (raised_within (set (pr_written pr (\<not> i)))) (r, nd_session n)"
proof -
  let ?W = "set (pr_written pr i)" and ?V = "set (pr_written pr (\<not> i))"
  let ?p = "Packet_new a (take (nat plen) buffer) 0 (of_int plen)"
  note node = node_receive_single [OF pair_invD(2,1) [OF inv] recv]
  note start = pair_invD(3) [OF inv, of i]
  have prefix: "rl_in (L i) (take k x) \<subseteq> rl_in (L i) x" for k x using laws unfolding record_laws_def by blast
  have "rl_in (L i) (view ?p) \<subseteq> ?V"
    unfolding view_Packet_new using unforged_written [OF inv assms(4)] prefix by (meson order_trans)
  then have step: "holds_after (conveyed (L i) sent_datagrams ?W ?V) (raised_within ?V) (r, nd_session n)"
    if "session_step fuel (G i) (E i) (OpRead ?p) (nd_session (pr_node pr i)) = Some (r, nd_session n)"
    by (intro session_step_conveys [OF laws obs that start]) simp_all
  have "holds_after (conveyed (L i) sent_datagrams ?W ?V) (raised_within ?V) (r, nd_session (pr_node pr i))"
    using start by (cases r) (simp_all add: conveyed_def packets_within_def)
  with node step show ?thesis by auto
qed

lemma pair_call:
  assumes inv: "pair_inv K L pr" and laws: "record_laws (G i) (L i)" and obs: "observes (E i) sent_datagrams"
    and "\<And>p. op \<noteq> OpRead p" and step: "session_step fuel (G i) (E i) op (nd_session (pr_node pr i)) = Some (r, s)" and "\<And>u. r \<noteq> UB u"
  shows "conveyed (L i) sent_datagrams (set (pr_written pr i @ written_by op (nd_session (pr_node pr i)))) (set (pr_written pr (\<not> i))) s"
proof -
  let ?W = "set (pr_written pr i @ written_by op (nd_session (pr_node pr i)))" and ?V = "set (pr_written pr (\<not> i))"
  have "conveyed (L i) sent_datagrams ?W ?V (nd_session (pr_node pr i))"
    by (rule conveyed_mono [OF pair_invD(3) [OF inv, of i]]) auto
  moreover have "received_by (L i) op = {}" using assms(4) by (cases op) auto
  ultimately have "holds_after (conveyed (L i) sent_datagrams ?W ?V) (raised_within ?V) (r, s)"
    by (intro session_step_conveys [OF laws obs step]) simp_all
  then show ?thesis by (rule holds_after_defined [OF _ assms(6)])
qed

lemma pair_reach_inv:
  assumes "pair_reach G E K L pr0 pr" and "pair_inv K L pr0" and laws: "\<And>i. record_laws (G i) (L i)"
    and obs: "\<And>i. observes (E i) sent_datagrams"
  shows "pair_inv K L pr"
  using assms(1)
proof (induction rule: pair_reach.induct)
  case pair_start
  show ?case by (rule assms(2))
next
  case (pair_operation pr op fuel i r s)
  note step = pair_call [where G = G and E = E and i = i, OF pair_operation.IH laws obs pair_operation.hyps(2-4)]
  show ?case
    by (rule pair_inv_upd [OF pair_operation.IH]) (use step pair_invD(2) [OF pair_operation.IH] in auto)
next
  case (pair_datagram pr i plen buffer fuel a addr r n)
  note recv = pair_receive [where G = G and E = E and i = i, OF pair_datagram.IH laws obs pair_datagram.hyps(2,3)]
  note s = holds_after_defined [OF conjunct2 [OF recv] pair_datagram.hyps(4)]
  have "pair_inv K L (pr\<lparr>pr_node := (pr_node pr)(i := n), pr_written := (pr_written pr)(i := pr_written pr i)\<rparr>)"
    by (rule pair_inv_upd [OF pair_datagram.IH]) (use recv s in simp_all)
  then show ?case by simp
qed

text \<open>
  Where runs start: on each side a socket with its one peer and a session that the constructor has just
  returned, on a handle that has nothing to send or to deliver.
\<close>

definition pair_fresh ::
  "(bool \<Rightarrow> 'g gnutls) \<Rightarrow> (bool \<Rightarrow> socket_address) \<Rightarrow> (bool \<Rightarrow> udp_link) \<Rightarrow> (bool \<Rightarrow> 'g record_layer) \<Rightarrow> 'g pair \<Rightarrow> bool" where
  "pair_fresh G K lnk L pr \<longleftrightarrow> (\<forall>i. let n = pr_node pr i; g = cs_session (nd_session n) in
     wf_sockaddr (K i) \<and> us_peers (nd_socket n) = [(K i, lnk i)] \<and> ul_peer (lnk i) = K i
     \<and> (\<exists>h. CryptoSession_new (G i) (\<lambda>sent. sent) h [] = Ret (nd_session n))
     \<and> rl_unsent (L i) g = {} \<and> rl_unread (L i) g = {} \<and> pr_written pr i = [])"

lemma fresh_inv:
  assumes "pair_fresh G K lnk L pr"
  shows "pair_inv K L pr"
  unfolding pair_inv_def
proof (intro allI)
  fix i
  let ?n = "pr_node pr i"
  from assms have fresh: "wf_sockaddr (K i)" "us_peers (nd_socket ?n) = [(K i, lnk i)]"
    "rl_unsent (L i) (cs_session (nd_session ?n)) = {}" "rl_unread (L i) (cs_session (nd_session ?n)) = {}"
    unfolding pair_fresh_def Let_def by blast+
  from assms obtain h where "CryptoSession_new (G i) (\<lambda>sent. sent) h [] = Ret (nd_session ?n)"
    unfolding pair_fresh_def Let_def by blast
  then have "cs_next (nd_session ?n) = []" "st_raised (nd_session ?n) = []" "cs_currentPacket (nd_session ?n) = None"
    by (cases "nd_session ?n", auto simp: CryptoSession_new_def Let_def split: option.splits)+
  with fresh show "wf_sockaddr (K i) \<and> map fst (us_peers (nd_socket ?n)) = [K i]
      \<and> conveyed (L i) sent_datagrams (set (pr_written pr i)) (set (pr_written pr (\<not> i))) (nd_session ?n)"
    by (simp add: conveyed_def packets_within_def raised_within_def sent_datagrams_def)
qed

section \<open>Integrity from session to session\<close>

text \<open>
  C3. Nothing gets through that was not written at the other end: in every run of two nodes over a network
  that loses, duplicates, reorders and invents datagrams, a packet that the arrival of a datagram makes a
  session hand to its readers shows exactly the bytes of a packet that the program passed to \<^verbatim>\<open>write\<close> of the open session
  at the other end, and the datagram came from the address of the peer. What the nodes send is what
  \<^verbatim>\<open>UdpLink::write\<close> passes to \<^verbatim>\<open>sendto\<close>, also where the call fails; the network carries at most that. The
  delivery itself may be the last step of the run, since \<^verbatim>\<open>handleData\<close> frees the delivered block twice.
\<close>

theorem pair_integrity:
  assumes "\<forall>i. record_laws (G i) (L i)" and "\<forall>i. E i = link_env (sendto i) strerror (lnk i) (adr i) block"
    and "pair_fresh G K lnk L pr0" and "pair_reach G E K L pr0 pr"
    and "unforged L pr i (take (nat plen) buffer)"
    and "node_receive fuel (G i) (E i) (K i) a (plen, buffer, addr) (pr_node pr i) = Some (r, n)"
    and "p \<in> set (st_raised (nd_session n))" and "p \<notin> set (st_raised (nd_session (pr_node pr i)))"
  shows "wf_packet p \<and> view p \<in> set (pr_written pr (\<not> i)) \<and> SocketAddress_native addr = Ret (K i)"
proof -
  have laws: "record_laws (G j) (L j)" and obs: "observes (E j) sent_datagrams" for j
    using assms(1,2) observes_link by simp_all
  have inv: "pair_inv K L pr"
    by (rule pair_reach_inv [OF assms(4) fresh_inv [OF assms(3)] laws obs])
  have "raised_within (set (pr_written pr (\<not> i))) (nd_session n)"
    using pair_receive [where G = G and E = E and i = i, OF inv laws obs assms(5,6)]
    by (cases r) (simp_all add: conveyed_def packets_within_def)
  moreover have "SocketAddress_native addr = Ret (K i)"
    using node_receive_single(2) [OF pair_invD(2,1) [OF inv] assms(6)] assms(7,8) by auto
  ultimately show ?thesis
    using assms(7) unfolding raised_within_def by blast
qed

text \<open>
  A library for examples whose records carry their length: the rest of a datagram is ignored, a datagram that
  is too short holds no record.
\<close>

fun unframe :: "byte list \<Rightarrow> byte list option" where
  "unframe [] = None"
| "unframe (b # x) = (if unat b \<le> length x then Some (take (unat b) x) else None)"

definition framed_gnutls :: "bool gnutls" where
  "framed_gnutls = null_gnutls\<lparr>
     g_record_recv := (\<lambda>g n. Pull n (\<lambda>(k, x). Done (case unframe x of None \<Rightarrow> (E_AGAIN, []) | Some d \<Rightarrow> (int (length d), d), g))),
     g_record_send := (\<lambda>g d. if length d < 256 then Push (of_nat (length d) # d) (\<lambda>_. Done (int (length d), g)) else Done (- 9, g))\<rparr>"

definition framed_layer :: "bool record_layer" where
  "framed_layer = \<lparr>rl_out = (\<lambda>x. set_option (unframe x)), rl_in = (\<lambda>x. set_option (unframe x)),
     rl_unsent = (\<lambda>_. {}), rl_unread = (\<lambda>_. {})\<rparr>"

lemma unframe_take: "set_option (unframe (take n x)) \<subseteq> set_option (unframe x)"
  by (cases x; cases n) (auto simp: min_def)

lemma unframe_length: "unframe x = Some d \<Longrightarrow> length d < 256"
  using unsigned_less [where 'a = nat and 'b = 8] by (cases x) (auto simp: min_def split: if_splits)

lemma framed_laws: "record_laws framed_gnutls framed_layer"
proof -
  have "unat (of_nat n :: byte) = n" if "n < 256" for n
    using that by (simp add: unat_of_nat)
  moreover have "E_AGAIN < 0" by (simp add: E_AGAIN_def)
  ultimately show ?thesis
    using unframe_take unframe_length
    by (auto simp: record_laws_def framed_gnutls_def null_gnutls_def framed_layer_def handle_laws_def bufferSize_def
        split: option.splits) fastforce+
qed

text \<open>Two nodes over this library; one of them writes two bytes.\<close>

definition demo_pair :: "bool pair" where
  "demo_pair = \<lparr>pr_node = (\<lambda>_. demo_node), pr_written = (\<lambda>_. [])\<rparr>"

lemma demo_pair_fresh:
  "pair_fresh (\<lambda>_. framed_gnutls) (\<lambda>_. demo_addr 1) (\<lambda>_. UdpLink_new 5 (demo_addr 1)) (\<lambda>_. framed_layer) demo_pair"
proof -
  have "CryptoSession_new framed_gnutls (\<lambda>sent. sent) (Some False) [] = Ret (nd_session demo_node)"
    using new_over [of "[]"] by (simp add: CryptoSession_new_def framed_gnutls_def demo_node_def)
  then have "\<exists>h. CryptoSession_new framed_gnutls (\<lambda>sent. sent) h [] = Ret (nd_session demo_node)" by blast
  then show ?thesis
    by (simp add: pair_fresh_def demo_pair_def demo_node_def demo_socket_simps wf_demo framed_layer_def UdpLink_new_def)
qed

lemma framed_open: "session_step 1 framed_gnutls E OpOpen (fresh_over nx) = Some (Ret (), opened_over nx)"
  by (simp add: CryptoSession_open_def handleHandshake.simps opened_over_def fresh_over_def framed_gnutls_def null_gnutls_def
      call_gnutls_def session_ops E_SUCCESS_def E_AGAIN_def E_GOT_APPLICATION_DATA_def)

definition framed_sent :: "datagram list" where
  "framed_sent = [(5, [2, 69, 7], take (sa_native_len (demo_addr 1)) (sa_addr (demo_addr 1)))]"

lemma framed_write:
  "session_step 1 framed_gnutls demo_env (OpWrite (Packet_new 1 [69, 7] 0 2)) (opened_over []) = Some (Ret (), opened_over framed_sent)"
  by (simp add: CryptoSession_write_def framed_gnutls_def null_gnutls_def call_gnutls_def CryptoSession_push_def demo_write
      framed_sent_def opened_over_def view_simps E_AGAIN_def)

lemma framed_recv:
  "session_step 1 framed_gnutls E (OpRead (Packet_new a [2, 69, 7] 0 3)) (opened_over nx)
   = Some (UB DoubleFree, (opened_over nx)\<lparr>st_raised := [delivered E 2 [69, 7]]\<rparr>)"
proof -
  let ?p = "Packet_new a [2, 69, 7] 0 3" and ?s = "(opened_over nx)\<lparr>cs_currentPacket := Some (Packet_new a [2, 69, 7] 0 3)\<rparr>"
  have "wf_packet ?p" "view ?p = [2, 69, 7]"
    by (simp_all add: wf_packet_def Packet_new_def view_def Packet_data_def Packet_length_def)
  moreover have "unat (of_nat bufferSize :: size_t) = 65536" by (simp add: bufferSize_def)
  ultimately have "CryptoSession_pull ?s (of_nat bufferSize) = (Ret (3, [2, 69, 7]), opened_over nx)"
    using pull_packet [of ?s ?p "of_nat bufferSize"] by (simp add: opened_over_def)
  then have "call_gnutls E (g_record_recv framed_gnutls (cs_session ?s) (of_nat bufferSize)) ?s = (Ret (2, [69, 7]), opened_over nx)"
    by (simp add: framed_gnutls_def null_gnutls_def call_gnutls_def opened_over_def)
  moreover have "2 \<le> bufferSize" by (simp add: bufferSize_def)
  ultimately show ?thesis
    by (simp add: CryptoSession_readPacket_def handlePacket_def handleData.simps handleData_memory delivered_def
        CryptoSession_propagate_def del: One_nat_def) (simp add: opened_over_def)
qed

abbreviation demo_reach :: "bool pair \<Rightarrow> bool" where
  "demo_reach \<equiv> pair_reach (\<lambda>_. framed_gnutls) (\<lambda>_. demo_env) (\<lambda>_. demo_addr 1) (\<lambda>_. framed_layer) demo_pair"

text \<open>Both nodes open their sessions, then the first one writes.\<close>

lemma demo_written:
  "\<exists>pr. demo_reach pr \<and> pr_written pr True = [[69, 7]] \<and> pr_node pr False = demo_node\<lparr>nd_session := opened_over []\<rparr>
     \<and> sent_datagrams (cs_next (nd_session (pr_node pr True))) = {[2, 69, 7]}"
proof -
  let ?w = "OpWrite (Packet_new 1 [69, 7] 0 2)" and ?n = "\<lambda>sent. demo_node\<lparr>nd_session := opened_over sent\<rparr>"
  let ?one = "\<lparr>pr_node = (\<lambda>_. demo_node)(True := ?n []), pr_written = (\<lambda>_. [])(True := [])\<rparr>"
  let ?two = "\<lparr>pr_node = (\<lambda>_. demo_node)(True := ?n [], False := ?n []), pr_written = (\<lambda>_. [])(True := [], False := [])\<rparr>"
  have one: "demo_reach ?one"
    using pair_operation [OF pair_start, of OpOpen 1 "\<lambda>_. framed_gnutls" True "\<lambda>_. demo_env" demo_pair "Ret ()" "opened_over []"]
    by (simp add: demo_pair_def demo_node_def framed_open del: session_step.simps One_nat_def)
  have two: "demo_reach ?two"
    using pair_operation [OF one, of OpOpen 1 False "Ret ()" "opened_over []"]
    by (simp add: demo_node_def framed_open del: session_step.simps One_nat_def)
  have three: "demo_reach (?two\<lparr>pr_node := (pr_node ?two)(True := (pr_node ?two True)\<lparr>nd_session := opened_over framed_sent\<rparr>),
      pr_written := (pr_written ?two)(True := pr_written ?two True @ written_by ?w (nd_session (pr_node ?two True)))\<rparr>)"
    by (rule pair_operation [OF two, of ?w 1 True "Ret ()"])
      (use framed_write in \<open>simp_all del: session_step.simps One_nat_def\<close>)
  have st: "cs_state (opened_over []) = Open" "cs_next (opened_over nx) = nx" for nx :: "datagram list" by (simp_all add: opened_over_def)
  show ?thesis
    by (intro exI conjI, rule three) (simp_all add: st sent_datagrams_def framed_sent_def view_simps)
qed

theorem pair_integrity_witness:
  "\<exists>pr n p. demo_reach pr \<and> pr_written pr True = [[69, 7]]
     \<and> node_receive 1 framed_gnutls demo_env (demo_addr 1) 9 (3, [2, 69, 7], sa_addr (demo_addr 1)) (pr_node pr False)
       = Some (UB DoubleFree, n)
     \<and> p \<in> set (st_raised (nd_session n)) \<and> view p \<in> set (pr_written pr True)"
proof -
  obtain pr where pr: "demo_reach pr" "pr_written pr True = [[69, 7]]" "pr_node pr False = demo_node\<lparr>nd_session := opened_over []\<rparr>"
    "sent_datagrams (cs_next (nd_session (pr_node pr True))) = {[2, 69, 7]}"
    using demo_written by blast
  let ?recv = "(3, [2, 69, 7], sa_addr (demo_addr 1))" and ?p = "delivered demo_env 2 [69, 7]"
  have "map_option (\<lambda>(r, n). (r, nd_session n)) (node_receive 1 framed_gnutls demo_env (demo_addr 1) 9 ?recv (pr_node pr False))
      = Some (UB DoubleFree, (opened_over [])\<lparr>st_raised := [?p]\<rparr>)"
    using node_receive_peer [of "pr_node pr False" "demo_addr 1" "UdpLink_new 5 (demo_addr 1)" "sa_addr (demo_addr 1)" 3 1 framed_gnutls demo_env 9 "[2, 69, 7]"]
      framed_recv [of demo_env 9 "[]"]
    by (simp add: pr(3) demo_node_def demo_socket_simps wf_demo native_roundtrip UdpLink_new_def del: session_step.simps One_nat_def)
  then obtain n where n: "node_receive 1 framed_gnutls demo_env (demo_addr 1) 9 ?recv (pr_node pr False) = Some (UB DoubleFree, n)"
    "st_raised (nd_session n) = [?p]" by auto
  have "unforged (\<lambda>_. framed_layer) pr False (take (nat 3) [2, 69, 7])"
    using pr(4) by (simp add: unforged_def framed_layer_def)
  from pair_integrity [where G = "\<lambda>_. framed_gnutls" and L = "\<lambda>_. framed_layer" and E = "\<lambda>_. demo_env" and K = "\<lambda>_. demo_addr 1"
      and i = False and p = ?p and n = n and block = "\<lambda>n. replicate n 0" and sendto = "\<lambda>_. demo_sendto"
      and strerror = "\<lambda>_. []" and lnk = "\<lambda>_. UdpLink_new 5 (demo_addr 1)" and adr = "\<lambda>_. 9",
      OF _ _ demo_pair_fresh pr(1) this n(1)] n(2)
  have "view ?p \<in> set (pr_written pr True)"
    by (simp add: framed_laws demo_env_def pr(3) opened_over_def)
  with pr n show ?thesis
    by (intro exI [of _ pr] exI [of _ n] exI [of _ ?p]) simp
qed

end
