(* ===== verification/Net_Tun.thy ===== *)
theory Net_Tun
  imports Packet_Stream Ownership
begin

text \<open>
  The tunnel device as a stream (\<^verbatim>\<open>net/tun.hpp\<close>, \<^verbatim>\<open>net/TunDevice.cpp\<close>). \<^verbatim>\<open>read\<close>, \<^verbatim>\<open>write\<close> and \<^verbatim>\<open>close\<close> of the system
  are arguments.
\<close>

record net_tun = stream_base +
  nt_fd :: int
  nt_name :: string
  nt_watching :: "int option"

text \<open>
  The watcher is started without a descriptor: \<open>junk\<close> is what its uninitialised field holds.
\<close>

definition NetTun_new :: "int \<Rightarrow> int \<Rightarrow> string \<Rightarrow> net_tun" where
  "NetTun_new junk fd name = \<lparr>st_slots = [], st_raised = [], nt_fd = fd, nt_name = name, nt_watching = Some junk\<rparr>"

definition NetTun_name :: "net_tun \<Rightarrow> string" where
  "NetTun_name t = nt_name t"

definition NetTun_write :: "(int \<Rightarrow> byte list \<Rightarrow> int) \<Rightarrow> net_tun \<Rightarrow> packet \<Rightarrow> bool" where
  "NetTun_write sys_write t p = (let err = sys_write (nt_fd t) (view p) in err \<ge> 0)"

text \<open>
  \<open>answer\<close> is what \<^verbatim>\<open>read\<close> returns and the bytes it stored, \<open>block\<close> the fresh buffer. The result is
  converted to \<^verbatim>\<open>size_t\<close>.
\<close>

definition watcherEvent :: "nat \<Rightarrow> (nat \<Rightarrow> byte list) \<Rightarrow> int \<times> byte list \<Rightarrow> net_tun \<Rightarrow> net_tun" where
  "watcherEvent a block answer t =
     (let len = 65536;
          (ret, bytes) = answer;
          buffer = memcpy (block len) 0 bytes;
          len = (of_int ret :: size_t)
      in t\<lparr>st_raised := st_raised t @ [Packet_new a buffer 0 len]\<rparr>)"

text \<open>The destructor: the watcher is stopped, the descriptor passed to \<^verbatim>\<open>close\<close> returned.\<close>

definition NetTun_delete :: "net_tun \<Rightarrow> int \<times> net_tun" where
  "NetTun_delete t = (nt_fd t, t\<lparr>nt_watching := None\<rparr>)"

text \<open>
  What \<^verbatim>\<open>read\<close> returned is what the readers of a tunnel device see, as a well-formed packet, if it is not
  an error. After an error the readers get a packet that claims $2^{64} - 1$ bytes, more than its block has.
\<close>

theorem tun_read:
  assumes "length (block 65536) = 65536" and "length bytes \<le> 65536"
  shows "(\<exists>q. watcherEvent a block (int (length bytes), bytes) t = t\<lparr>st_raised := st_raised t @ [q]\<rparr> \<and> wf_packet q \<and> view q = bytes)
    \<and> (\<exists>q. watcherEvent a block (- 1, []) t = t\<lparr>st_raised := st_raised t @ [q]\<rparr> \<and> \<not> wf_packet q \<and> unat (Packet_length q) = 2 ^ 64 - 1)"
proof -
  let ?b = "memcpy (block 65536) 0 bytes"
  let ?q = "Packet_new a ?b 0 (of_nat (length bytes))"
  let ?e = "Packet_new a (memcpy (block 65536) 0 []) 0 (- 1)"
  have len: "length ?b = 65536" using assms by (simp add: memcpy_def)
  have "unat (of_nat (length bytes) :: size_t) = length bytes" using assms(2) by simp
  moreover have "take (length bytes) ?b = bytes" using assms by (simp add: memcpy_def)
  ultimately have "wf_packet ?q \<and> view ?q = bytes" using len assms(2) by (auto intro!: wf_Packet_new simp: view_simps)
  moreover have "watcherEvent a block (int (length bytes), bytes) t = t\<lparr>st_raised := st_raised t @ [?q]\<rparr>"
    by (simp add: watcherEvent_def Let_def)
  moreover have "unat (- 1 :: size_t) = 2 ^ 64 - 1" by (simp add: unsigned_minus_1_eq_mask mask_eq_exp_minus_1)
  then have "\<not> wf_packet ?e \<and> unat (Packet_length ?e) = 2 ^ 64 - 1"
    using assms(1) by (simp add: wf_packet_def Packet_new_def Packet_length_def memcpy_def)
  moreover have "watcherEvent a block (- 1, []) t = t\<lparr>st_raised := st_raised t @ [?e]\<rparr>"
    by (simp add: watcherEvent_def Let_def)
  ultimately show ?thesis by blast
qed

end
