(* ===== verification/Tunnel.thy ===== *)
theory Tunnel
  imports Session_Auth Net_Tun
begin

text \<open>
  \<^verbatim>\<open>Tunnel\<close> (\<^verbatim>\<open>net/tunnel.hpp\<close>, \<^verbatim>\<open>net/Tunnel.cpp\<close>): the data channel between a tunnel device and a
  cryptographic session. The channel's stream is the tunnel's session, so the session's state is the
  field \<open>ch_next\<close> of the channel, and the channel's virtual \<^verbatim>\<open>write\<close> is that of \<^verbatim>\<open>CryptoSession\<close>.
\<close>

section \<open>State and operations\<close>

record ('g, 'n) tunnel =
  tl_tun :: "net_tun option"
  tl_data :: "('g, 'n) session channel"

definition session_env :: "'g gnutls \<Rightarrow> 'n stream_env \<Rightarrow> ('g, 'n) session stream_env" where
  "session_env G E = \<lparr>se_write = CryptoSession_write G E, se_addr = se_addr E, se_block = se_block E\<rparr>"

definition DataChannelId :: byte where "DataChannelId = 0"

text \<open>
  The member initialisers, and the constructor: in its body \<^verbatim>\<open>tun\<close> names the parameter, which has been
  moved from, a null pointer.
\<close>

definition Tunnel_init :: "('g, 'n) session \<Rightarrow> net_tun option \<Rightarrow> ('g, 'n) tunnel" where
  "Tunnel_init link tun = \<lparr>tl_tun = tun, tl_data = UnreliableChannel_new link DataChannelId\<rparr>"

definition Tunnel_new :: "('g, 'n) session \<Rightarrow> net_tun option \<Rightarrow> ('g, 'n) tunnel outcome" where
  "Tunnel_new link tun =
     (let t = Tunnel_init link tun;
          tun = (None :: net_tun option)
      in case tun of
           None \<Rightarrow> UB NullDeref
         | Some d \<Rightarrow> Ret (t\<lparr>tl_data := Channel_connectReceive (tl_data t) Tunnel_dataRead_slot\<rparr>))"

definition Tunnel_getChannel :: "('g, 'n) tunnel \<Rightarrow> byte \<Rightarrow> bool \<Rightarrow> ('g, 'n) session channel outcome" where
  "Tunnel_getChannel t cid reliable =
     (if reliable then Throw (InvalidArgument ''id'')
      else if cid = 0 then Ret (tl_data t)
      else Throw (InvalidArgument ''id''))"

definition Tunnel_propagate :: "('g, 'n) tunnel \<Rightarrow> packet \<Rightarrow> ('g, 'n) tunnel outcome" where
  "Tunnel_propagate t p =
     (if Packet_length p = 0 then Throw (InvalidOperation ''Packet too short'')
      else if Packet_data p = [] then UB OutOfBounds
      else
        let chan = Packet_data p ! 0;
            reliableChannel = ((chan AND 0x80) \<noteq> 0)
        in map_outcome_val (\<lambda>c. t\<lparr>tl_data := UnreliableChannel_readPacket c (Packet_skip p 1)\<rparr>)
             (Tunnel_getChannel t (chan AND NOT 0x80) reliableChannel))"

definition tunRead ::
  "'g gnutls \<Rightarrow> 'n stream_env \<Rightarrow> ('g, 'n) tunnel \<Rightarrow> packet \<Rightarrow> unit outcome \<times> ('g, 'n) tunnel" where
  "tunRead G E t p =
     (let (r, c) = UnreliableChannel_writePacket (session_env G E) (tl_data t) p
      in (map_outcome_val (\<lambda>_. ()) r, t\<lparr>tl_data := c\<rparr>))"

definition dataRead :: "(int \<Rightarrow> byte list \<Rightarrow> int) \<Rightarrow> ('g, 'n) tunnel \<Rightarrow> packet \<Rightarrow> unit outcome" where
  "dataRead sys_write t p =
     (case tl_tun t of None \<Rightarrow> UB NullDeref | Some d \<Rightarrow> (let _ = NetTun_write sys_write d p in Ret ()))"

text \<open>The destructor closes the session; an exception that leaves it ends the program.\<close>

definition Tunnel_delete :: "'g gnutls \<Rightarrow> 'n stream_env \<Rightarrow> ('g, 'n) tunnel \<Rightarrow> unit outcome \<times> ('g, 'n) session" where
  "Tunnel_delete G E t = CryptoSession_close G E (ch_next (tl_data t))"

section \<open>Construction and destruction\<close>

lemma tunnel_constructor_undefined: "Tunnel_new link tun = UB NullDeref"
  by (simp add: Tunnel_new_def)

lemma tunnel_destructor_throws:
  "cs_state (ch_next (tl_data t)) \<in> {Invalid, Closed, Aborted} \<Longrightarrow>
   Tunnel_delete G E t = (Throw (InvalidOperation ''Session not ready''), ch_next (tl_data t))"
  by (auto simp: Tunnel_delete_def CryptoSession_close_def)

section \<open>Dispatch of received packets\<close>

lemma byte_parts: "(b AND m) OR (b AND NOT m) = b" for b m :: byte
  by (rule bit_eqI) (auto simp: bit_simps)

lemma byte_parts_zero: "b AND m = 0 \<Longrightarrow> b AND NOT m = 0 \<Longrightarrow> b = 0" for b m :: byte
  using byte_parts [of b m] by simp

lemma view_Cons_data:
  assumes "view p = b # bs"
  shows "Packet_length p \<noteq> 0" and "Packet_data p \<noteq> []" and "Packet_data p ! 0 = b"
proof -
  have t: "take (unat (Packet_length p)) (Packet_data p) = b # bs" using assms by (simp add: view_def)
  then show "Packet_length p \<noteq> 0" "Packet_data p \<noteq> []" by auto
  have "take (unat (Packet_length p)) (Packet_data p) ! 0 = b" using t by simp
  then show "Packet_data p ! 0 = b" using \<open>Packet_length p \<noteq> 0\<close> by (simp add: unat_gt_0)
qed

lemma Tunnel_propagate_data:
  assumes "wf_packet p" and "view p = b # bs"
  shows "Tunnel_propagate t p =
    (if b = 0 then Ret (t\<lparr>tl_data := UnreliableChannel_readPacket (tl_data t) (Packet_skip p 1)\<rparr>)
     else Throw (InvalidArgument ''id''))"
  using view_Cons_data [OF assms(2)] byte_parts_zero [of b "0x80"]
  by (auto simp: Tunnel_propagate_def Tunnel_getChannel_def Let_def)

lemma Tunnel_propagate_empty: "wf_packet p \<Longrightarrow> view p = [] \<Longrightarrow> Tunnel_propagate t p = Throw (InvalidOperation ''Packet too short'')"
  using length_view [of p] by (simp add: Tunnel_propagate_def Packet_length_def unat_eq_0)

text \<open>
  C27. A tunnel takes in only packets of the data channel: an empty packet is refused as too short, a
  packet whose first byte is not zero, reliable or not, as having no channel, and otherwise exactly one
  \<^verbatim>\<open>receive\<close> is raised on the data channel, with the bytes that remain after two have been removed: the
  channel removes the header a second time.
\<close>

theorem tunnel_dispatch:
  assumes "wf_packet p"
  shows "case view p of
      [] \<Rightarrow> Tunnel_propagate t p = Throw (InvalidOperation ''Packet too short'')
    | b # bs \<Rightarrow>
        if b \<noteq> 0 then Tunnel_propagate t p = Throw (InvalidArgument ''id'')
        else \<exists>q. Tunnel_propagate t p = Ret (t\<lparr>tl_data := (tl_data t)\<lparr>ch_raised := ch_raised (tl_data t) @ [Receive q]\<rparr>\<rparr>)
          \<and> wf_packet q \<and> view q = drop 1 bs"
proof (cases "view p")
  case Nil
  with assms show ?thesis by (simp add: Tunnel_propagate_empty)
next
  case (Cons b bs)
  let ?q = "Packet_skip (Packet_skip p 1) Unreliable_size"
  have "wf_packet ?q" "view ?q = drop 1 bs"
    using assms Cons by (simp_all add: wf_intros view_simps Unreliable_size_def)
  with Tunnel_propagate_data [OF assms Cons, of t] Cons show ?thesis
    by (auto simp: UnreliableChannel_readPacket_def raise_signal_def)
qed

theorem tunnel_dispatch_witness:
  "\<exists>q c. Tunnel_propagate (Tunnel_init opened None) (Packet_new 1 [0, 7, 8] 0 3) = Ret \<lparr>tl_tun = None, tl_data = c\<rparr>
     \<and> ch_raised c = [Receive q] \<and> view q = [8]"
proof -
  have "wf_packet (Packet_new 1 [0, 7, 8] 0 3)" "view (Packet_new 1 [0, 7, 8] 0 3) = [0, 7, 8]"
    by (simp_all add: wf_packet_def Packet_new_def view_def Packet_data_def Packet_length_def)
  with tunnel_dispatch [of "Packet_new 1 [0, 7, 8] 0 3" "Tunnel_init opened None"] show ?thesis
    by (auto simp: Tunnel_init_def UnreliableChannel_new_def)
qed

section \<open>From device to device\<close>

lemma tunRead_writes:
  assumes "\<And>n. length (se_block E n) = n" and "wf_packet p" and "length (view p) < 2 ^ 62" and "ch_cid (tl_data t) = DataChannelId"
  shows "\<exists>q. wf_packet q \<and> view q = 0 # view p
    \<and> tunRead G E t p = (case CryptoSession_write G E (ch_next (tl_data t)) q of
        (r, s) \<Rightarrow> (map_outcome_val (\<lambda>_. ()) r, t\<lparr>tl_data := (tl_data t)\<lparr>ch_next := s\<rparr>\<rparr>))"
proof -
  let ?ps = "[unrel_packet (ch_cid (tl_data t)), p]"
  have total: "total_length ?ps = Suc (length (view p))"
    using length_view [OF wf_unrel_packet, of "ch_cid (tl_data t)"] length_view [OF assms(2)]
    by (simp add: view_simps unrel_bytes_def)
  let ?q = "Packet_new (se_addr E) (concat (map view ?ps)) 0 (of_nat (total_length ?ps))"
  have wf: "\<forall>x\<in>set ?ps. wf_packet x" using assms(2) by (simp add: wf_intros)
  have q: "Stream_gather (se_addr E) (se_block E) ?ps = Ret ?q"
    using wf total assms(1,3) by (intro Stream_gather_eq) simp_all
  have bytes: "concat (map view ?ps) = 0 # view p"
    using assms(4) by (simp add: view_simps unrel_bytes_def DataChannelId_def)
  have "unat (of_nat (total_length ?ps) :: size_t) = total_length ?ps"
    using total assms(3) by (intro unat_of_nat_size) simp
  with total have len: "unat (of_nat (total_length ?ps) :: size_t) = Suc (length (view p))" by simp
  have "wf_packet ?q" "view ?q = 0 # view p"
    unfolding bytes using len assms(3) by (auto intro!: wf_Packet_new simp: view_simps simp del: total_length_simps)
  moreover have "tunRead G E t p = (case CryptoSession_write G E (ch_next (tl_data t)) ?q of
        (r, s) \<Rightarrow> (map_outcome_val (\<lambda>_. ()) r, t\<lparr>tl_data := (tl_data t)\<lparr>ch_next := s\<rparr>\<rparr>))"
    using q by (cases "CryptoSession_write G E (ch_next (tl_data t)) ?q"; cases "fst (CryptoSession_write G E (ch_next (tl_data t)) ?q)")
      (simp_all add: tunRead_def UnreliableChannel_writePacket_def next_write_def Stream_write_packets_def
        Stream_write_range_def session_env_def)
  ultimately show ?thesis by blast
qed

text \<open>
  The first byte of every packet is lost between two tunnels: for what a device reads, \<^verbatim>\<open>tunRead\<close> writes a
  zero byte and the packet to the session, and a tunnel that receives exactly these bytes delivers the
  packet without its first byte to its data channel.
\<close>

theorem tunnel_loses_first_byte:
  assumes "\<forall>n. length (se_block E n) = n" and "wf_packet p" and "length (view p) < 2 ^ 62" and "ch_cid (tl_data t) = DataChannelId"
  shows "\<exists>q. tunRead G E t p = (case CryptoSession_write G E (ch_next (tl_data t)) q of
        (r, s) \<Rightarrow> (map_outcome_val (\<lambda>_. ()) r, t\<lparr>tl_data := (tl_data t)\<lparr>ch_next := s\<rparr>\<rparr>))
    \<and> view q = 0 # view p
    \<and> (\<forall>q' t'. wf_packet q' \<longrightarrow> view q' = view q \<longrightarrow>
        (\<exists>x. Tunnel_propagate t' q' = Ret (t'\<lparr>tl_data := (tl_data t')\<lparr>ch_raised := ch_raised (tl_data t') @ [Receive x]\<rparr>\<rparr>)
          \<and> view x = drop 1 (view p)))"
proof -
  obtain q where q: "wf_packet q" "view q = 0 # view p"
    and w: "tunRead G E t p = (case CryptoSession_write G E (ch_next (tl_data t)) q of
        (r, s) \<Rightarrow> (map_outcome_val (\<lambda>_. ()) r, t\<lparr>tl_data := (tl_data t)\<lparr>ch_next := s\<rparr>\<rparr>))"
    using tunRead_writes [of E p t G] assms by blast
  have "\<exists>x. Tunnel_propagate t' q' = Ret (t'\<lparr>tl_data := (tl_data t')\<lparr>ch_raised := ch_raised (tl_data t') @ [Receive x]\<rparr>\<rparr>)
      \<and> view x = drop 1 (view p)" if "wf_packet q'" "view q' = view q" for q' :: packet and t' :: "('g, 'n) tunnel"
    using that q(2) Tunnel_propagate_data [of q' 0 "view p" t']
    by (auto simp: UnreliableChannel_readPacket_def raise_signal_def view_simps wf_intros Unreliable_size_def)
  with q w show ?thesis by blast
qed

end
