(* ===== verification/Spec2Isabelle.thy ===== *)
theory Spec2Isabelle
  imports Serializable_Types Channel_Spec Contracts Session_Runs Session_Objects Node_Pair Tunnel
begin

text \<open>
  \<^bold>\<open>Wetnork\<close> is a prototype of an encrypted overlay network: packets read from a tunnel device are put on
  a channel, encrypted by a GnuTLS session and sent as UDP datagrams to a peer that is authenticated by
  the fingerprint of its OpenPGP key; beside it stand a library for serialising objects into archives
  that can be passed between processes and the administration of tunnel devices on the host. This
  development models the program's C++ code and proves what its components promise, or that they do not
  keep the promise where the code is wrong.

  \<^bold>\<open>Conventions.\<close> A class is a record, an enumeration a datatype, a member function a definition with the
  name of the function, prefixed by its class where the name alone is ambiguous. State is passed explicitly.
  The result of an expression is an \<^term>\<open>outcome\<close>: a value, one of the exceptions the sources throw, or
  undefined behaviour (theory Exceptions). Integers have the width of the source: \<^verbatim>\<open>size_t\<close> and
  \<^verbatim>\<open>ptrdiff_t\<close> are 64 bit words, and an addition wraps. Code outside the repository is an argument: system
  calls, GnuTLS, netlink, \<^verbatim>\<open>inet_pton\<close>, the memory that \<^verbatim>\<open>new\<close> returns. What a theorem needs of it is a
  named hypothesis (for instance \<open>authenticates\<close>, \<open>carries\<close>, \<open>consumes\<close>, \<open>record_laws\<close>, \<open>user_pointer_laws\<close>, \<open>fresh_descriptors\<close>,
  \<open>tun_naming_laws\<close>, \<open>changes_interface\<close>, \<open>fingerprint_fits\<close>), which every witness discharges for a concrete function. A signal of the library
  \<^verbatim>\<open>more::signals\<close> is recorded where it is raised; functions connected to it observe and do not call back.

  \<^bold>\<open>Components\<close>, by theory, in the order of their dependency:

  \<^item> Prelude: machine integers, byte order, \<^verbatim>\<open>memcpy\<close> and \<^verbatim>\<open>memcmp\<close>; the locale \<open>codec\<close> of fixed-size wire
    formats, interpreted for 16 and 32 bit integers here and for both channel headers in Channels.
  \<^item> Exceptions: \<^verbatim>\<open>include/exception.hpp\<close>, \<^verbatim>\<open>common/Exception.cpp\<close> and the exceptions of \<^verbatim>\<open>net/\<close>; outcomes.
  \<^item> Packet: \<^verbatim>\<open>include/Packet.hpp\<close>, \<^verbatim>\<open>common/Packet.cpp\<close>, a window into a shared block. \<^verbatim>\<open>skip\<close> and
    \<^verbatim>\<open>truncate\<close> stay inside the block and split the bytes; \<open>view\<close> is the abstraction to a list of bytes that
    all other theories use.
  \<^item> Packet\_Stream: \<^verbatim>\<open>include/network.hpp\<close>, \<^verbatim>\<open>common/Stream.cpp\<close>. The two loops of the gathering \<^verbatim>\<open>write\<close>
    are memory safe and produce the concatenation.
  \<^item> Channels: \<^verbatim>\<open>net/Tunnel.Channel.cpp\<close>, \<^verbatim>\<open>net/Tunnel.UnreliableChannel.cpp\<close>,
    \<^verbatim>\<open>net/Tunnel.ReliableChannel.cpp\<close>, headers and all operations. The locales \<open>fresh_memory\<close> and \<open>wire\<close>
    are what channels rely on when they write: memory, and that a write puts at most its own packet on the wire.
  \<^item> Reliable\_Protocol, Reliable\_Pair: two reliable channels over any two streams (locale \<open>wires\<close>), whose writes may fail
    or throw, and a network that loses, duplicates and reorders frames, as a step relation. An invariant by rule
    induction gives delivery in order and at most once. The steps let the timer callback run at any time, which
    is more than the program does: under its event loop the timer is never active and nothing but
    acknowledgements is ever sent. The first message is never delivered, nothing is delivered after sequence
    number $2^{32} - 1$.
  \<^item> Simulation, Channel\_Spec: the locale \<open>simulation\<close> (every step of a component is a step of an abstract
    machine or invisible to it, with the consequences for runs and invariants), and its instance for
    the pair of channels (a \<open>sublocale\<close> of \<open>wires\<close>): they refine a duplex service without frames, sequence numbers and timers.
  \<^item> Ipc: \<^verbatim>\<open>include/ipc/\<close>. Serialising writes exactly the bytes of a value and its descriptors twice; reading
    from zero offsets inverts it; the offsets are not initialised.
  \<^item> Std\_Map: \<^verbatim>\<open>std::map\<close> and \<^verbatim>\<open>std::set\<close> over an arbitrary comparison. The locale \<open>key_order\<close> is the
    requirement of the standard with the container laws as its consequences; it is interpreted for strings
    and fingerprints, and the comparisons of addresses are proved to violate it.
  \<^item> Addresses: \<^verbatim>\<open>IPAddress\<close> and \<^verbatim>\<open>SocketAddress\<close>. Round trips through text, archive and the native structures.
  \<^item> Serializable\_Types: \<^verbatim>\<open>include/ipc/is_serializable.hpp\<close>. A language of types by what the templates ask of
    them, the trait, and the overloads that \<^verbatim>\<open>write\<close> and \<^verbatim>\<open>read\<close> select. Whatever the uninitialised offsets hold,
    reading a type returns exactly the value of the type that stands at these offsets of the archive. The trait
    accepts types that no overload serves, \<^verbatim>\<open>IPAddress\<close> among them, because the union in \<^verbatim>\<open>Deserializer::pop\<close> cannot
    hold it; its \<^verbatim>\<open>deserialize\<close>, called on an object that exists, inverts \<^verbatim>\<open>serialize\<close>.
  \<^item> Fingerprint, Crypto\_Context: \<^verbatim>\<open>KeyFingerprint\<close> and \<^verbatim>\<open>CryptoContext\<close>. The verification callback accepts
    exactly permissible peers; credentials do not leak.
  \<^item> Ownership: reference counts and the memory operations of the two functions that keep, or take, the ownership of
    a block they pass on in a packet (\<^verbatim>\<open>handleData\<close>, \<^verbatim>\<open>vec_push\<close>); the models of both execute them.
  \<^item> Crypto\_Session, Session\_Invariant, Session\_Auth, State\_Notifier, Session\_Runs: \<^verbatim>\<open>CryptoSession\<close>. A call of
    GnuTLS is a tree of transport callbacks; running it executes the program's callbacks. A rule for invariants of
    sessions (\<open>session_inv\<close>) is shared by all later theories. Every reachable session that is open is authenticated,
    announces a path of its state machine, and refuses operations outside their states; every delivery of
    application data is a double free. The two handlers call each other; \<open>fuel\<close> bounds the number of handshake
    calls. If the library reports a renegotiation request only for a byte that it processes (\<open>consumes\<close>), fuel is
    enough that exceeds the number of bytes not yet processed, those the library holds and those of the packet at
    hand, and more fuel gives the same result. The locale \<open>state_notifier\<close> is shared with links.
  \<^item> Session\_Context: \<^verbatim>\<open>openSession\<close> on every path, and that the verification callback dereferences a null
    pointer on every session opened with it.
  \<^item> Session\_Objects: sessions as objects in a store, reached by GnuTLS and by the stream below through the addresses
    that the constructor registers. A session that stays in place behaves as in Crypto\_Session; one that was
    moved, as \<^verbatim>\<open>Tunnel\<close> does, never receives a packet and is lost with the object it was moved from.
  \<^item> Udp: \<^verbatim>\<open>Link\<close>, \<^verbatim>\<open>Socket\<close>, \<^verbatim>\<open>UdpLink\<close>, \<^verbatim>\<open>UdpSocket\<close>. The resending loop is a partial function whose divergence
    is characterised; datagrams reach the peer's link; connecting closes the new descriptor, connecting
    twice destroys both links, a second peer is undefined.
  \<^item> Node: a session over the link of a socket. The calls of \<^verbatim>\<open>sendto\<close> that the link makes are recorded with the
    arguments the system gets. A datagram of the peer is one packet read by the session; whatever arrives, only
    authenticated data reaches the readers, and every datagram is sent on the link's descriptor to the peer's address.
  \<^item> Net\_Tun, Tunnel: \<^verbatim>\<open>net/TunDevice.cpp\<close> and \<^verbatim>\<open>net/Tunnel.cpp\<close>. Dispatch of received packets and the byte that
    is lost between two tunnels.
  \<^item> Record\_Layer, Node\_Pair: two nodes, whose sessions stay where they were constructed, and the network between them.
    What GnuTLS promises of its records is the hypothesis \<open>record_laws\<close>, a weakest precondition of its callbacks.
    Whatever the network does, what a session hands to its readers was written to the session at the other end.
  \<^item> Handles, Host\_Tun, Host\_Admin: \<^verbatim>\<open>host/\<close>. The locale \<open>movable_handle\<close> is the contract of classes that own a
    handle and can be moved; any program over such objects releases every handle exactly once. It is
    interpreted for \<^verbatim>\<open>host::TunDevice\<close>, \<^verbatim>\<open>RtnlLink\<close> and \<^verbatim>\<open>TunAdminContext\<close>. The registry of devices is a map
    without leaks; the administrative operations give back every link the library handed out, and are undefined
    on a context whose socket was moved away.
  \<^item> Registry\_Spec: the registry refines a table from names to devices (another instance of \<open>simulation\<close>).
  \<^item> Contracts: the postconditions and exceptions documented in the headers of \<^verbatim>\<open>Packet\<close>, \<^verbatim>\<open>host::TunDevice\<close>,
    \<^verbatim>\<open>TunRegistry\<close> and \<^verbatim>\<open>TunAdminContext\<close> as predicates, and exactly when the code meets them.
  \<^item> This theory: \<^verbatim>\<open>main\<close> up to its first \<^verbatim>\<open>return\<close>.

  \<^bold>\<open>How the components interact.\<close> A tunnel's unreliable channel writes to the tunnel's session
  (\<open>session_env\<close>), the session's \<^verbatim>\<open>push\<close> writes to the stream below, the argument \<open>se_write\<close>; a link is such a
  stream (\<open>link_env\<close>), and its \<^verbatim>\<open>read\<close> signal calls the session's \<^verbatim>\<open>readPacket\<close> (\<open>node_receive\<close>). The context opens
  sessions and is called back by GnuTLS on their handles. Archives carry addresses. The registry creates
  the devices that the administration changes. Runs stop at nodes: the constructor of \<^verbatim>\<open>Tunnel\<close> is
  undefined for every argument, a session that was moved into a tunnel receives nothing, and nothing connects a session
  to \<^verbatim>\<open>Tunnel::propagate\<close>, so the operations of tunnels are treated one by one.

  \<^bold>\<open>Not modelled.\<close> The alias \<^verbatim>\<open>include/signal.hpp\<close> and the submodule behind it, whose \<^verbatim>\<open>scoped_connection\<close> is taken to
  hand its connection over when it is moved; the event loop itself (its
  callbacks are operations that any run may call); the statements of \<^verbatim>\<open>main\<close> behind its first \<^verbatim>\<open>return\<close>, which never run;
  access, virtual functions and copying as the class declarations fix them, which the compiler decides; serialisation
  functions whose calls depend on the value other than by a leading tag; the accepting of unknown peers, for which the
  source only has a comment. GnuTLS runs the verification callback inside the handshake call; it is not a node of the
  tree of callbacks but a function of its own, and what it answered is part of the handshake's result. The blocks that
  \<^verbatim>\<open>push\<close>, \<^verbatim>\<open>onPacketArrived\<close> and \<^verbatim>\<open>watcherEvent\<close> release into their packets have no ownership model. No code of the
  sources joins a reliable channel to a link or a session, so there is no composition of them. The rest of the sources
  that no definition translates are comments, include directives, forward declarations and empty constructors and
  destructors.
\<close>

section \<open>The program\<close>

text \<open>
  \<^verbatim>\<open>main\<close> of \<^verbatim>\<open>wetnork.cpp\<close> up to its first \<^verbatim>\<open>return\<close>: the bytes it writes to descriptor 1. \<open>pton\<close> is
  \<^verbatim>\<open>inet_pton\<close>, \<open>block\<close> the memory that \<^verbatim>\<open>new\<close> returns.
\<close>

definition main_output :: "(u32 \<Rightarrow> string \<Rightarrow> byte list option) \<Rightarrow> byte list \<Rightarrow> (nat \<Rightarrow> byte list) \<Rightarrow> byte list outcome" where
  "main_output pton junk block =
     and_then (IPAddress_parse pton junk ''::1.2.3.4'') (\<lambda>ip.
     and_then (serialize_archive block (IPAddress_serialize ip)) (\<lambda>p.
       Ret (take (unat (ar_length p)) (ar_data p))))"

text \<open>
  C40. The program writes twenty bytes: the family of IPv6 as a little-endian number and the sixteen
  bytes that \<^verbatim>\<open>inet_pton\<close> gives for the address; if that function rejects the text, an exception ends the
  program before it writes.
\<close>

theorem main_writes:
  assumes "\<forall>n. length (block n) = n"
    and "\<forall>native. pton 10 ''::1.2.3.4'' = Some native \<longrightarrow> length native = 16"
  shows "main_output pton junk block =
    (case pton 10 ''::1.2.3.4'' of
       Some native \<Rightarrow> Ret ([10, 0, 0, 0] @ native)
     | None \<Rightarrow> Throw (InvalidArgument ''Cannot parse address''))"
proof (cases "pton 10 ''::1.2.3.4''")
  case None
  then show ?thesis
    by (simp add: main_output_def IPAddress_parse_def c_str_def)
next
  case (Some native)
  let ?ip = "IPAddress_in6 native"
  have len: "length native = 16" using assms(2) Some by simp
  then have wf: "wf_ip ?ip" by (simp add: wf_intros)
  have flat: "flat (IPAddress_serialize ?ip) = [10, 0, 0, 0] @ native"
    unfolding flat_ip [OF wf] using len by (simp add: IPAddress_in6_def ip_native_def native_size_def bytes_of_u32_def)
  have "serialize_archive block (IPAddress_serialize ?ip)
      = Ret \<lparr>ar_data = [10, 0, 0, 0] @ native, ar_length = of_nat (length ([10, 0, 0, 0] @ native)), ar_fds = []\<rparr>"
    using serialize_exact_lemma [OF _ assms(1), of "IPAddress_serialize ?ip"] len
    by (simp add: flat fds_ip)
  with Some len show ?thesis
    by (simp add: main_output_def IPAddress_parse_def c_str_def)
qed

theorem main_writes_witness:
  "main_output (\<lambda>f s. if f = 10 \<and> s = ''::1.2.3.4'' then Some (replicate 12 0 @ [1, 2, 3, 4]) else None) [] (\<lambda>n. replicate n 0)
     = Ret ([10, 0, 0, 0] @ replicate 12 0 @ [1, 2, 3, 4])"
  using main_writes [of "\<lambda>n. replicate n 0" "\<lambda>f s. if f = 10 \<and> s = ''::1.2.3.4'' then Some (replicate 12 0 @ [1, 2, 3, 4]) else None" "[]"]
  by simp

end
